theory Spec2Isabelle
  imports Complex_Main "HOL-Library.Multiset"
begin

section \<open>Data model\<close>

text \<open>
  The program keeps one game in global variables. A piece is a two-character string such as
  \<^verbatim>\<open>"wk"\<close>: the first character is the colour, the second the piece type. The board is an
  array of eight rows of eight cells, a cell being a piece or \<^verbatim>\<open>null\<close>. Row 0 is the black
  back rank. The theorems below hold for every list of rows, in particular for these boards.
\<close>

datatype color = White | Black

datatype ptype = Pawn | Knight | Bishop | Rook | Queen | King

type_synonym piece = "color \<times> ptype"

type_synonym square = "int \<times> int"

type_synonym board = "piece option list list"

datatype special = DoublePush | EnPassant | CastleKS | CastleQS

text \<open>A move is \<^verbatim>\<open>{from: {r, c}, to: {r, c}, special}\<close>; squares are (row, column) pairs.\<close>

record move =
  from_sq :: square
  to_sq :: square
  special :: "special option"

record side_rights =
  kingSide :: bool
  queenSide :: bool

record rights =
  white :: side_rights
  black :: side_rights

datatype mode = Pvp | Solo

text \<open>
  The script has no \<^verbatim>\<open>throw\<close> statement. The only way a call can fail is the interpreter's
  own \<^verbatim>\<open>TypeError\<close> when the character of a \<^verbatim>\<open>null\<close> piece is read.
\<close>

datatype error = TypeError

text \<open>
  The global variables of the script that the rules engine reads or writes. The captured-piece
  ledger \<^verbatim>\<open>capturedPieces = {w: [], b: []}\<close> is kept as two fields.
\<close>

record game =
  board :: board
  turn :: color
  gameMode :: mode
  capturedPieces_w :: "piece list"
  capturedPieces_b :: "piece list"
  moveCount :: nat
  halfMoveClock :: nat
  castlingRights :: rights
  enPassantTarget :: "square option"
  pendingPromotion :: "move option"

section \<open>Squares and cells\<close>

definition isValidSquare :: "int \<Rightarrow> int \<Rightarrow> bool" where
  "isValidSquare r c = (r \<ge> 0 \<and> r < 8 \<and> c \<ge> 0 \<and> c < 8)"

text \<open>
  \<open>cell b r c\<close> is the read \<^verbatim>\<open>b[r][c]\<close>. Outside the stored cells of a row JavaScript
  yields \<^verbatim>\<open>undefined\<close>, which every test of the script treats like \<^verbatim>\<open>null\<close>; the script
  never reads a row that does not exist.
\<close>

definition cell :: "board \<Rightarrow> int \<Rightarrow> int \<Rightarrow> piece option" where
  "cell b r c =
     (if 0 \<le> r \<and> nat r < length b \<and> 0 \<le> c \<and> nat c < length (b ! nat r)
      then b ! nat r ! nat c else None)"

text \<open>
  \<open>setCell b r c v\<close> is the write \<^verbatim>\<open>b[r][c] = v\<close> on a board that the caller owns. A write
  beside the stored cells happens only for a castling candidate of a king that does not stand on
  column 4: JavaScript then adds a cell outside the grid, which none of the guarded reads of the
  engine sees. The model keeps the grid as it is there.
\<close>

definition setCell :: "board \<Rightarrow> int \<Rightarrow> int \<Rightarrow> piece option \<Rightarrow> board" where
  "setCell b r c v =
     (if 0 \<le> r \<and> nat r < length b \<and> 0 \<le> c \<and> nat c < length (b ! nat r)
      then b[nat r := (b ! nat r)[nat c := v]] else b)"

definition opponent :: "color \<Rightarrow> color" where
  "opponent col = (if col = White then Black else White)"

text \<open>\<^verbatim>\<open>target && target.startsWith(col)\<close>\<close>

definition startsWith :: "piece option \<Rightarrow> color \<Rightarrow> bool" where
  "startsWith target col = (case target of None \<Rightarrow> False | Some p \<Rightarrow> fst p = col)"

text \<open>
  \<^verbatim>\<open>fromPiece[1] === t\<close>. The script reads the type of the piece on a move's origin square;
  inside the engine every such move was generated for the piece standing there, so the piece is
  never \<^verbatim>\<open>null\<close> at these reads.
\<close>

definition hasType :: "piece option \<Rightarrow> ptype \<Rightarrow> bool" where
  "hasType p t = (case p of None \<Rightarrow> False | Some q \<Rightarrow> snd q = t)"

section \<open>Move Generator\<close>

definition addMove :: "int \<Rightarrow> int \<Rightarrow> int \<Rightarrow> int \<Rightarrow> special option \<Rightarrow> move" where
  "addMove r c tr tc sp = \<lparr>from_sq = (r, c), to_sq = (tr, tc), special = sp\<rparr>"

definition canCastle_kingSide :: "color \<Rightarrow> game \<Rightarrow> bool" where
  "canCastle_kingSide col g =
     kingSide ((if col = White then white else black) (castlingRights g))"

definition canCastle_queenSide :: "color \<Rightarrow> game \<Rightarrow> bool" where
  "canCastle_queenSide col g =
     queenSide ((if col = White then white else black) (castlingRights g))"

definition pawnMoves :: "int \<Rightarrow> int \<Rightarrow> color \<Rightarrow> game \<Rightarrow> move list" where
  "pawnMoves r c col g =
     (let enemyColor = opponent col;
          direction = (if col = White then - 1 else 1)
      in (if isValidSquare (r + direction) c \<and> cell (board g) (r + direction) c = None
          then addMove r c (r + direction) c None #
               (if (col = White \<and> r = 6) \<or> (col = Black \<and> r = 1)
                then (if isValidSquare (r + direction * 2) c
                         \<and> cell (board g) (r + direction * 2) c = None
                      then [addMove r c (r + direction * 2) c (Some DoublePush)] else [])
                else [])
          else [])
         @ concat (map (\<lambda>(tr, tc).
             if isValidSquare tr tc
             then (if startsWith (cell (board g) tr tc) enemyColor
                   then [addMove r c tr tc None] else [])
                  @ (if enPassantTarget g = Some (tr, tc)
                     then [addMove r c tr tc (Some EnPassant)] else [])
             else [])
           [(r + direction, c - 1), (r + direction, c + 1)]))"

definition knightOffsets :: "(int \<times> int) list" where
  "knightOffsets = [(- 2, - 1), (- 2, 1), (- 1, - 2), (- 1, 2), (1, - 2), (1, 2), (2, - 1), (2, 1)]"

definition knightMoves :: "int \<Rightarrow> int \<Rightarrow> color \<Rightarrow> game \<Rightarrow> move list" where
  "knightMoves r c col g =
     concat (map (\<lambda>(dr, dc).
       let tr = r + dr; tc = c + dc
       in if isValidSquare tr tc
             \<and> (cell (board g) tr tc = None \<or> startsWith (cell (board g) tr tc) (opponent col))
          then [addMove r c tr tc None] else [])
       knightOffsets)"

text \<open>The two nested loops over \<^verbatim>\<open>dr, dc\<close> from -1 to 1 that skip \<^verbatim>\<open>(0, 0)\<close>.\<close>

definition kingOffsets :: "(int \<times> int) list" where
  "kingOffsets = [(- 1, - 1), (- 1, 0), (- 1, 1), (0, - 1), (0, 1), (1, - 1), (1, 0), (1, 1)]"

definition kingMoves :: "int \<Rightarrow> int \<Rightarrow> color \<Rightarrow> game \<Rightarrow> move list" where
  "kingMoves r c col g =
     concat (map (\<lambda>(dr, dc).
       let tr = r + dr; tc = c + dc
       in if isValidSquare tr tc
             \<and> (cell (board g) tr tc = None \<or> startsWith (cell (board g) tr tc) (opponent col))
          then [addMove r c tr tc None] else [])
       kingOffsets)
     @ (if canCastle_kingSide col g
           \<and> cell (board g) r (c + 1) = None \<and> cell (board g) r (c + 2) = None
        then [addMove r c r (c + 2) (Some CastleKS)] else [])
     @ (if canCastle_queenSide col g
           \<and> cell (board g) r (c - 1) = None \<and> cell (board g) r (c - 2) = None
           \<and> cell (board g) r (c - 3) = None
        then [addMove r c r (c - 2) (Some CastleQS)] else [])"

text \<open>
  The \<^verbatim>\<open>while (isValidSquare(tr, tc))\<close> loop along one direction. Every direction the script
  passes is non-zero; the guard on the direction states that, and with it each step moves towards
  the edge of the grid.
\<close>

function slideMoves ::
  "board \<Rightarrow> color \<Rightarrow> int \<Rightarrow> int \<Rightarrow> int \<Rightarrow> int \<Rightarrow> int \<Rightarrow> int \<Rightarrow> move list" where
  "slideMoves b enemyColor r c dr dc tr tc =
     (if isValidSquare tr tc \<and> (dr \<noteq> 0 \<or> dc \<noteq> 0)
      then (case cell b tr tc of
              None \<Rightarrow> addMove r c tr tc None # slideMoves b enemyColor r c dr dc (tr + dr) (tc + dc)
            | Some target \<Rightarrow> (if fst target = enemyColor then [addMove r c tr tc None] else []))
      else [])"
  by pat_completeness auto
termination
  by (relation "measure (\<lambda>(b, e, r, c, dr, dc, tr, tc).
        nat (if dr > 0 then 8 - tr else if dr < 0 then tr + 1
             else if dc > 0 then 8 - tc else tc + 1))")
     (auto simp: isValidSquare_def)

declare slideMoves.simps [simp del]

definition slideDirections :: "ptype \<Rightarrow> (int \<times> int) list" where
  "slideDirections t =
     (if t = Rook \<or> t = Queen then [(0, 1), (0, - 1), (1, 0), (- 1, 0)] else [])
     @ (if t = Bishop \<or> t = Queen then [(1, 1), (1, - 1), (- 1, 1), (- 1, - 1)] else [])"

definition slidingMoves :: "int \<Rightarrow> int \<Rightarrow> piece \<Rightarrow> game \<Rightarrow> move list" where
  "slidingMoves r c piece g =
     concat (map (\<lambda>(dr, dc). slideMoves (board g) (opponent (fst piece)) r c dr dc (r + dr) (c + dc))
       (slideDirections (snd piece)))"

definition getPseudoLegalMoves :: "int \<Rightarrow> int \<Rightarrow> piece \<Rightarrow> game \<Rightarrow> move list" where
  "getPseudoLegalMoves r c piece g =
     (if snd piece = Pawn then pawnMoves r c (fst piece) g
      else if snd piece = Knight then knightMoves r c (fst piece) g
      else if snd piece = King then kingMoves r c (fst piece) g
      else slidingMoves r c piece g)"

section \<open>Attack Detector\<close>

definition attackDirs :: "(int \<times> int) list" where
  "attackDirs = [(0, 1), (0, - 1), (1, 0), (- 1, 0), (1, 1), (1, - 1), (- 1, 1), (- 1, - 1)]"

text \<open>
  One pass of the \<^verbatim>\<open>while\<close> loop of the attack detector along direction number \<open>i\<close>: the
  first piece met decides, and \<^verbatim>\<open>break\<close> ends the direction without an attack.
\<close>

function rayAttack :: "board \<Rightarrow> color \<Rightarrow> nat \<Rightarrow> int \<Rightarrow> int \<Rightarrow> int \<Rightarrow> int \<Rightarrow> bool" where
  "rayAttack b enemyPrefix i dr dc tr tc =
     (if isValidSquare tr tc \<and> (dr \<noteq> 0 \<or> dc \<noteq> 0)
      then (case cell b tr tc of
              None \<Rightarrow> rayAttack b enemyPrefix i dr dc (tr + dr) (tc + dc)
            | Some piece \<Rightarrow>
                fst piece = enemyPrefix
                \<and> (snd piece = Queen \<or> (i < 4 \<and> snd piece = Rook) \<or> (i \<ge> 4 \<and> snd piece = Bishop)))
      else False)"
  by pat_completeness auto
termination
  by (relation "measure (\<lambda>(b, e, i, dr, dc, tr, tc).
        nat (if dr > 0 then 8 - tr else if dr < 0 then tr + 1
             else if dc > 0 then 8 - tc else tc + 1))")
     (auto simp: isValidSquare_def)

declare rayAttack.simps [simp del]

definition isSquareAttacked :: "int \<Rightarrow> int \<Rightarrow> color \<Rightarrow> board \<Rightarrow> bool" where
  "isSquareAttacked r c defendingColor boardState =
     (let enemyPrefix = (if defendingColor = White then Black else White);
          attackRow = (if defendingColor = White then r - 1 else r + 1)
      in (isValidSquare attackRow (c - 1)
            \<and> cell boardState attackRow (c - 1) = Some (enemyPrefix, Pawn))
         \<or> (isValidSquare attackRow (c + 1)
            \<and> cell boardState attackRow (c + 1) = Some (enemyPrefix, Pawn))
         \<or> list_ex (\<lambda>(dr, dc). isValidSquare (r + dr) (c + dc)
                \<and> cell boardState (r + dr) (c + dc) = Some (enemyPrefix, Knight)) knightOffsets
         \<or> list_ex (\<lambda>i. case attackDirs ! i of
                (dr, dc) \<Rightarrow> rayAttack boardState enemyPrefix i dr dc (r + dr) (c + dc)) [0..<8]
         \<or> list_ex (\<lambda>(kr, kc). isValidSquare (r + kr) (c + kc)
                \<and> cell boardState (r + kr) (c + kc) = Some (enemyPrefix, King)) kingOffsets)"

section \<open>Legality Filter\<close>

text \<open>The squares in the order of the loops \<^verbatim>\<open>for r < 8, for c < 8\<close>.\<close>

definition allSquares :: "square list" where
  "allSquares = concat (map (\<lambda>r. map (\<lambda>c. (r, c)) [0..7]) [0..7])"

definition findKing :: "board \<Rightarrow> color \<Rightarrow> square" where
  "findKing boardState col =
     (case find (\<lambda>(r, c). cell boardState r c = Some (col, King)) allSquares of
        Some s \<Rightarrow> s
      | None \<Rightarrow> (0, 0))"

text \<open>The scratch copy of the board on which the legality filter relocates the piece.\<close>

definition tempBoard :: "move \<Rightarrow> game \<Rightarrow> board" where
  "tempBoard m g =
     (let fromPiece = cell (board g) (fst (from_sq m)) (snd (from_sq m));
          t0 = board g;
          t1 = (if special m = Some EnPassant
                then setCell t0 (fst (from_sq m)) (snd (to_sq m)) None else t0);
          t2 = setCell t1 (fst (to_sq m)) (snd (to_sq m)) fromPiece
      in setCell t2 (fst (from_sq m)) (snd (from_sq m)) None)"

definition isMoveSafe :: "move \<Rightarrow> color \<Rightarrow> game \<Rightarrow> bool" where
  "isMoveSafe m col g =
     (let fromPiece = cell (board g) (fst (from_sq m)) (snd (from_sq m));
          tb = tempBoard m g;
          kingPos = findKing tb col;
          kRow = (if hasType fromPiece King then fst (to_sq m) else fst kingPos);
          kCol = (if hasType fromPiece King then snd (to_sq m) else snd kingPos)
      in if special m = Some CastleKS
            \<and> (isSquareAttacked (fst (from_sq m)) (snd (from_sq m)) col (board g)
               \<or> isSquareAttacked (fst (from_sq m)) (snd (from_sq m) + 1) col (board g))
         then False
         else if special m = Some CastleQS
            \<and> (isSquareAttacked (fst (from_sq m)) (snd (from_sq m)) col (board g)
               \<or> isSquareAttacked (fst (from_sq m)) (snd (from_sq m) - 1) col (board g))
         then False
         else \<not> isSquareAttacked kRow kCol col tb)"

text \<open>
  \<^verbatim>\<open>for (const move of pseudoMoves) if (isMoveSafe(move, color)) legalMoves.push(move)\<close>
\<close>

fun safeMoves :: "color \<Rightarrow> game \<Rightarrow> move list \<Rightarrow> move list" where
  "safeMoves col g [] = []"
| "safeMoves col g (m # ms) =
     (if isMoveSafe m col g then m # safeMoves col g ms else safeMoves col g ms)"

text \<open>
  The body of the loops over the squares, in \<^verbatim>\<open>getLegalMoves\<close> and in the move gathering
  of the search: the safe moves of the piece of the given side on one square of the scanned
  board.
\<close>

definition movesAt :: "board \<Rightarrow> color \<Rightarrow> game \<Rightarrow> square \<Rightarrow> move list" where
  "movesAt boardState col g sq =
     (case cell boardState (fst sq) (snd sq) of
        None \<Rightarrow> []
      | Some piece \<Rightarrow>
          (if fst piece = col
           then safeMoves col g (getPseudoLegalMoves (fst sq) (snd sq) piece g)
           else []))"

definition getLegalMoves :: "color \<Rightarrow> game \<Rightarrow> move list" where
  "getLegalMoves col g = concat (map (movesAt (board g) col g) allSquares)"

section \<open>Move Executor\<close>

text \<open>\<^verbatim>\<open>initGame\<close> resets every variable of the game except the game mode.\<close>

definition initialBoard :: board where
  "initialBoard =
     [[Some (Black, Rook), Some (Black, Knight), Some (Black, Bishop), Some (Black, Queen),
       Some (Black, King), Some (Black, Bishop), Some (Black, Knight), Some (Black, Rook)],
      [Some (Black, Pawn), Some (Black, Pawn), Some (Black, Pawn), Some (Black, Pawn),
       Some (Black, Pawn), Some (Black, Pawn), Some (Black, Pawn), Some (Black, Pawn)],
      [None, None, None, None, None, None, None, None],
      [None, None, None, None, None, None, None, None],
      [None, None, None, None, None, None, None, None],
      [None, None, None, None, None, None, None, None],
      [Some (White, Pawn), Some (White, Pawn), Some (White, Pawn), Some (White, Pawn),
       Some (White, Pawn), Some (White, Pawn), Some (White, Pawn), Some (White, Pawn)],
      [Some (White, Rook), Some (White, Knight), Some (White, Bishop), Some (White, Queen),
       Some (White, King), Some (White, Bishop), Some (White, Knight), Some (White, Rook)]]"

definition initGame :: "mode \<Rightarrow> game" where
  "initGame gm =
     \<lparr>board = initialBoard,
      turn = White,
      gameMode = gm,
      capturedPieces_w = [],
      capturedPieces_b = [],
      moveCount = 1,
      halfMoveClock = 0,
      castlingRights = \<lparr>white = \<lparr>kingSide = True, queenSide = True\<rparr>,
                        black = \<lparr>kingSide = True, queenSide = True\<rparr>\<rparr>,
      enPassantTarget = None,
      pendingPromotion = None\<rparr>"

text \<open>\<^verbatim>\<open>capturedPieces[piece[0]].push(piece)\<close>, nothing for \<^verbatim>\<open>null\<close>.\<close>

definition trackCapture :: "piece option \<Rightarrow> game \<Rightarrow> game" where
  "trackCapture p g =
     (case p of
        None \<Rightarrow> g
      | Some q \<Rightarrow>
          (if fst q = White then g\<lparr>capturedPieces_w := capturedPieces_w g @ [q]\<rparr>
           else g\<lparr>capturedPieces_b := capturedPieces_b g @ [q]\<rparr>))"

definition revokeKingSide :: "color \<Rightarrow> rights \<Rightarrow> rights" where
  "revokeKingSide col cr =
     (if col = White then cr\<lparr>white := (white cr)\<lparr>kingSide := False\<rparr>\<rparr>
      else cr\<lparr>black := (black cr)\<lparr>kingSide := False\<rparr>\<rparr>)"

definition revokeQueenSide :: "color \<Rightarrow> rights \<Rightarrow> rights" where
  "revokeQueenSide col cr =
     (if col = White then cr\<lparr>white := (white cr)\<lparr>queenSide := False\<rparr>\<rparr>
      else cr\<lparr>black := (black cr)\<lparr>queenSide := False\<rparr>\<rparr>)"

text \<open>
  The rights update shared by \<^verbatim>\<open>makeMove\<close> and the search: a king move revokes both rights
  of the mover, a rook leaving column 0 or 7 revokes the right of that wing.
\<close>

definition updateRights :: "piece option \<Rightarrow> move \<Rightarrow> color \<Rightarrow> rights \<Rightarrow> rights" where
  "updateRights fromPiece m col cr =
     (let cr1 = (if hasType fromPiece King
                 then revokeQueenSide col (revokeKingSide col cr) else cr);
          cr2 = (if hasType fromPiece Rook \<and> snd (from_sq m) = 0
                 then revokeQueenSide col cr1 else cr1)
      in if hasType fromPiece Rook \<and> snd (from_sq m) = 7 then revokeKingSide col cr2 else cr2)"

text \<open>
  The pawn test of \<^verbatim>\<open>makeMove\<close>: the piece is a pawn and the move ends on row 0 or 7.
\<close>

definition reachesLastRank :: "piece \<Rightarrow> move \<Rightarrow> bool" where
  "reachesLastRank fromPiece m =
     (snd fromPiece = Pawn \<and> (fst (to_sq m) = 0 \<or> fst (to_sq m) = 7))"

text \<open>
  The part of \<^verbatim>\<open>makeMove\<close> after the promotion gate. The writes to the board are kept
  in the order of the source (\<open>b1\<close> to \<open>b5\<close>); the other variables are each assigned once, from
  values read before the turn switches. The en-passant target of a double push is
  \<^verbatim>\<open>(from.r + to.r) / 2\<close>; a generated double push moves two rows, so the sum is even. The
  rendering and the game-over test that the script runs from an animation timer afterwards are
  not part of the state transition.
\<close>

definition commitMove :: "move \<Rightarrow> ptype option \<Rightarrow> piece \<Rightarrow> game \<Rightarrow> game" where
  "commitMove m promotionChoice fromPiece g =
     (let fr = fst (from_sq m); fc = snd (from_sq m);
          tr = fst (to_sq m); tc = snd (to_sq m);
          targetPiece = cell (board g) tr tc;
          b1 = setCell (setCell (board g) tr tc (Some fromPiece)) fr fc None;
          victim = (if special m = Some EnPassant then cell b1 fr tc else None);
          b2 = (if special m = Some EnPassant then setCell b1 fr tc None else b1);
          b3 = (if special m = Some CastleKS
                then setCell (setCell b2 fr 5 (cell b2 fr 7)) fr 7 None else b2);
          b4 = (if special m = Some CastleQS
                then setCell (setCell b3 fr 3 (cell b3 fr 0)) fr 0 None else b3);
          b5 = (case promotionChoice of
                  None \<Rightarrow> b4
                | Some t \<Rightarrow> setCell b4 tr tc (Some (turn g, t)))
      in (trackCapture victim (trackCapture targetPiece g))
           \<lparr>castlingRights := updateRights (Some fromPiece) m (turn g) (castlingRights g),
            board := b5,
            enPassantTarget :=
              (if special m = Some DoublePush then Some ((fr + tr) div 2, fc) else None),
            moveCount := (if turn g = White then moveCount g + 1 else moveCount g),
            halfMoveClock :=
              (if snd fromPiece = Pawn \<or> targetPiece \<noteq> None then 0 else halfMoveClock g + 1),
            turn := (if turn g = White then Black else White)\<rparr>)"

text \<open>
  \<^verbatim>\<open>makeMove(move, promotionChoice = null)\<close>. Reading the type of the piece on an empty
  origin square raises the interpreter's \<^verbatim>\<open>TypeError\<close>. A pawn reaching the last rank with
  no choice supplied either promotes to a queen (the computer's side in solo mode) or is held in
  \<^verbatim>\<open>pendingPromotion\<close>, and the function returns.
\<close>

definition makeMove :: "move \<Rightarrow> ptype option \<Rightarrow> game \<Rightarrow> error + game" where
  "makeMove m promotionChoice g =
     (case cell (board g) (fst (from_sq m)) (snd (from_sq m)) of
        None \<Rightarrow> Inl TypeError
      | Some fromPiece \<Rightarrow>
          (if promotionChoice = None \<and> reachesLastRank fromPiece m
           then (if gameMode g = Solo \<and> turn g = Black
                 then Inr (commitMove m (Some Queen) fromPiece g)
                 else Inr (g\<lparr>pendingPromotion := Some m\<rparr>))
           else Inr (commitMove m promotionChoice fromPiece g)))"

text \<open>
  \<^verbatim>\<open>handlePromotionChoice(type)\<close>: with a pending promotion it commits the held move with
  the chosen piece and clears the pending move; with none pending the \<^verbatim>\<open>if\<close> has no
  \<^verbatim>\<open>else\<close> and the function returns.
\<close>

definition handlePromotionChoice :: "ptype \<Rightarrow> game \<Rightarrow> error + game" where
  "handlePromotionChoice t g =
     (case pendingPromotion g of
        None \<Rightarrow> Inr g
      | Some m \<Rightarrow>
          (case makeMove m (Some t) g of
             Inl e \<Rightarrow> Inl e
           | Inr g' \<Rightarrow> Inr (g'\<lparr>pendingPromotion := None\<rparr>)))"

section \<open>Evaluator\<close>

fun PIECE_VALUES :: "ptype \<Rightarrow> int" where
  "PIECE_VALUES Pawn = 100"
| "PIECE_VALUES Knight = 320"
| "PIECE_VALUES Bishop = 330"
| "PIECE_VALUES Rook = 500"
| "PIECE_VALUES Queen = 900"
| "PIECE_VALUES King = 20000"

text \<open>Piece-square tables, written from black's side; a white piece reads row \<open>7 - r\<close>.\<close>

fun PST :: "ptype \<Rightarrow> int list list" where
  "PST Pawn =
     [[0, 0, 0, 0, 0, 0, 0, 0],
      [50, 50, 50, 50, 50, 50, 50, 50],
      [10, 10, 20, 30, 30, 20, 10, 10],
      [5, 5, 10, 25, 25, 10, 5, 5],
      [0, 0, 0, 20, 20, 0, 0, 0],
      [5, - 5, - 10, 0, 0, - 10, - 5, 5],
      [5, 10, 10, - 20, - 20, 10, 10, 5],
      [0, 0, 0, 0, 0, 0, 0, 0]]"
| "PST Knight =
     [[- 50, - 40, - 30, - 30, - 30, - 30, - 40, - 50],
      [- 40, - 20, 0, 0, 0, 0, - 20, - 40],
      [- 30, 0, 10, 15, 15, 10, 0, - 30],
      [- 30, 5, 15, 20, 20, 15, 5, - 30],
      [- 30, 0, 15, 20, 20, 15, 0, - 30],
      [- 30, 5, 10, 15, 15, 10, 5, - 30],
      [- 40, - 20, 0, 5, 5, 0, - 20, - 40],
      [- 50, - 40, - 30, - 30, - 30, - 30, - 40, - 50]]"
| "PST Bishop =
     [[- 20, - 10, - 10, - 10, - 10, - 10, - 10, - 20],
      [- 10, 0, 0, 0, 0, 0, 0, - 10],
      [- 10, 0, 10, 10, 10, 10, 0, - 10],
      [- 10, 5, 5, 10, 10, 5, 5, - 10],
      [- 10, 0, 5, 10, 10, 5, 0, - 10],
      [- 10, 10, 10, 10, 10, 10, 10, - 10],
      [- 10, 5, 0, 0, 0, 0, 5, - 10],
      [- 20, - 10, - 10, - 10, - 10, - 10, - 10, - 20]]"
| "PST Rook =
     [[0, 0, 0, 0, 0, 0, 0, 0],
      [5, 10, 10, 10, 10, 10, 10, 5],
      [- 5, 0, 0, 0, 0, 0, 0, - 5],
      [- 5, 0, 0, 0, 0, 0, 0, - 5],
      [- 5, 0, 0, 0, 0, 0, 0, - 5],
      [- 5, 0, 0, 0, 0, 0, 0, - 5],
      [- 5, 0, 0, 0, 0, 0, 0, - 5],
      [0, 0, 0, 5, 5, 0, 0, 0]]"
| "PST Queen =
     [[- 20, - 10, - 10, - 5, - 5, - 10, - 10, - 20],
      [- 10, 0, 0, 0, 0, 0, 0, - 10],
      [- 10, 0, 5, 5, 5, 5, 0, - 10],
      [- 5, 0, 5, 5, 5, 5, 0, - 5],
      [0, 0, 5, 5, 5, 5, 0, - 5],
      [- 10, 5, 5, 5, 5, 5, 0, - 10],
      [- 10, 0, 5, 0, 0, 0, 0, - 10],
      [- 20, - 10, - 10, - 5, - 5, - 10, - 10, - 20]]"
| "PST King =
     [[- 30, - 40, - 40, - 50, - 50, - 40, - 40, - 30],
      [- 30, - 40, - 40, - 50, - 50, - 40, - 40, - 30],
      [- 30, - 40, - 40, - 50, - 50, - 40, - 40, - 30],
      [- 30, - 40, - 40, - 50, - 50, - 40, - 40, - 30],
      [- 20, - 30, - 30, - 40, - 40, - 30, - 30, - 20],
      [- 10, - 20, - 20, - 20, - 20, - 20, - 20, - 10],
      [20, 20, 0, 0, 0, 0, 20, 20],
      [20, 30, 10, 0, 0, 10, 30, 20]]"

text \<open>
  The body of the two loops of \<^verbatim>\<open>evaluateBoard\<close> for one square: black pieces add, white
  pieces subtract.
\<close>

definition evalSquare :: "board \<Rightarrow> int \<Rightarrow> square \<Rightarrow> int" where
  "evalSquare boardState score sq =
     (case cell boardState (fst sq) (snd sq) of
        None \<Rightarrow> score
      | Some piece \<Rightarrow>
          (let val = PIECE_VALUES (snd piece);
               pstVal = (if fst piece = Black
                         then PST (snd piece) ! nat (fst sq) ! nat (snd sq)
                         else PST (snd piece) ! nat (7 - fst sq) ! nat (snd sq))
           in if fst piece = Black then score + (val + pstVal) else score - (val + pstVal)))"

definition evaluateBoard :: "board \<Rightarrow> int" where
  "evaluateBoard boardState = foldl (evalSquare boardState) 0 allSquares"

section \<open>Search Engine\<close>

text \<open>Scores and the bounds \<^verbatim>\<open>-Infinity\<close>, \<^verbatim>\<open>Infinity\<close> of the search window.\<close>

datatype ext = NegInf | Fin int | PosInf

fun ext_le :: "ext \<Rightarrow> ext \<Rightarrow> bool" where
  "ext_le NegInf y = True"
| "ext_le x PosInf = True"
| "ext_le (Fin x) (Fin y) = (x \<le> y)"
| "ext_le x y = False"

definition ext_max :: "ext \<Rightarrow> ext \<Rightarrow> ext" where
  "ext_max x y = (if ext_le x y then y else x)"

definition ext_min :: "ext \<Rightarrow> ext \<Rightarrow> ext" where
  "ext_min x y = (if ext_le x y then x else y)"

text \<open>
  The simulation of a move on a copy of the board, as the search, the difficulty policy and the
  hint write it: relocate the piece, clear the en-passant victim, move the castling rook,
  promote a pawn on the last rank to a queen.
\<close>

definition simBoard :: "move \<Rightarrow> board \<Rightarrow> board" where
  "simBoard m boardState =
     (let fr = fst (from_sq m); fc = snd (from_sq m);
          tr = fst (to_sq m); tc = snd (to_sq m);
          fromPiece = cell boardState fr fc;
          n1 = setCell (setCell boardState tr tc fromPiece) fr fc None;
          n2 = (if special m = Some EnPassant then setCell n1 fr tc None else n1);
          n3 = (if special m = Some CastleKS
                then setCell (setCell n2 fr 5 (cell n2 fr 7)) fr 7 None else n2);
          n4 = (if special m = Some CastleQS
                then setCell (setCell n3 fr 3 (cell n3 fr 0)) fr 0 None else n3)
      in case fromPiece of
           None \<Rightarrow> n4
         | Some p \<Rightarrow> (if snd p = Pawn \<and> (tr = 0 \<or> tr = 7)
                      then setCell n4 tr tc (Some (fst p, Queen)) else n4))"

definition simEP :: "move \<Rightarrow> square option" where
  "simEP m =
     (if special m = Some DoublePush
      then Some ((fst (from_sq m) + fst (to_sq m)) div 2, snd (from_sq m)) else None)"

text \<open>
  The move list that \<^verbatim>\<open>minimax\<close> gathers while the globals hold the searched position.
\<close>

definition gatherMoves :: "board \<Rightarrow> color \<Rightarrow> game \<Rightarrow> move list" where
  "gatherMoves boardState col g = concat (map (movesAt boardState col g) allSquares)"

text \<open>
  \<^verbatim>\<open>minimax\<close> reads and writes the globals \<^verbatim>\<open>board\<close>, \<^verbatim>\<open>castlingRights\<close> and
  \<^verbatim>\<open>enPassantTarget\<close>, so the model passes the game through and returns it with the score.
  Every write of the search goes to a fresh copy (\<^verbatim>\<open>newBoard\<close>, \<^verbatim>\<open>newCR\<close>, the scratch
  board of the legality filter), never to an array that a global refers to. \<open>maxLoop\<close> and
  \<open>minLoop\<close> are the two \<^verbatim>\<open>for (const move of moves)\<close> loops; their argument \<open>d\<close> is
  \<^verbatim>\<open>depth - 1\<close>. The depth is a natural number: the callers pass 3 or
  \<^verbatim>\<open>config.depth - 1\<close> with a depth of 1, 2 or 3.
\<close>

function minimax ::
    "board \<Rightarrow> nat \<Rightarrow> ext \<Rightarrow> ext \<Rightarrow> bool \<Rightarrow> color \<Rightarrow> rights \<Rightarrow> square option \<Rightarrow> game
     \<Rightarrow> ext \<times> game"
  and maxLoop ::
    "board \<Rightarrow> nat \<Rightarrow> color \<Rightarrow> rights \<Rightarrow> move list \<Rightarrow> ext \<Rightarrow> ext \<Rightarrow> ext \<Rightarrow> game
     \<Rightarrow> ext \<times> game"
  and minLoop ::
    "board \<Rightarrow> nat \<Rightarrow> color \<Rightarrow> rights \<Rightarrow> move list \<Rightarrow> ext \<Rightarrow> ext \<Rightarrow> ext \<Rightarrow> game
     \<Rightarrow> ext \<times> game"
where
  "minimax boardState depth alpha beta isMaximizing currentTurn castleR epTarget g =
     (if depth = 0 then (Fin (evaluateBoard boardState), g)
      else
        let col = (if isMaximizing then Black else White);
            savedBoard = board g;
            savedCR = castlingRights g;
            savedEP = enPassantTarget g;
            g1 = g\<lparr>board := boardState, castlingRights := castleR, enPassantTarget := epTarget\<rparr>;
            moves = gatherMoves boardState col g1;
            g2 = g1\<lparr>board := savedBoard, castlingRights := savedCR, enPassantTarget := savedEP\<rparr>
        in if moves = []
           then (let kPos = findKing boardState col
                 in if isSquareAttacked (fst kPos) (snd kPos) col boardState
                    then (if isMaximizing then (Fin (- 99999 + (3 - int depth)), g2)
                          else (Fin (99999 - (3 - int depth)), g2))
                    else (Fin 0, g2))
           else if isMaximizing
           then maxLoop boardState (depth - 1) col castleR moves alpha beta NegInf g2
           else minLoop boardState (depth - 1) col castleR moves alpha beta PosInf g2)"
| "maxLoop boardState d col castleR [] alpha beta maxEval g = (maxEval, g)"
| "maxLoop boardState d col castleR (m # rest) alpha beta maxEval g =
     (let newBoard = simBoard m boardState;
          newEP = simEP m;
          newCR = updateRights (cell boardState (fst (from_sq m)) (snd (from_sq m))) m col castleR;
          (evalScore, g') = minimax newBoard d alpha beta False
                              (if col = White then Black else White) newCR newEP g;
          maxEval' = ext_max maxEval evalScore;
          alpha' = ext_max alpha evalScore
      in if ext_le beta alpha' then (maxEval', g')
         else maxLoop boardState d col castleR rest alpha' beta maxEval' g')"
| "minLoop boardState d col castleR [] alpha beta minEval g = (minEval, g)"
| "minLoop boardState d col castleR (m # rest) alpha beta minEval g =
     (let newBoard = simBoard m boardState;
          newEP = simEP m;
          newCR = updateRights (cell boardState (fst (from_sq m)) (snd (from_sq m))) m col castleR;
          (evalScore, g') = minimax newBoard d alpha beta True
                              (if col = White then Black else White) newCR newEP g;
          minEval' = ext_min minEval evalScore;
          beta' = ext_min beta evalScore
      in if ext_le beta' alpha then (minEval', g')
         else minLoop boardState d col castleR rest alpha beta' minEval' g')"
  by pat_completeness auto
termination
  by (relation "inv_image (less_than <*lex*> less_than)
        (\<lambda>x. case x of
           Inl (b, depth, rest) \<Rightarrow> (2 * depth, 0)
         | Inr (Inl (b, d, col, cr, moves, rest)) \<Rightarrow> (2 * d + 1, length moves)
         | Inr (Inr (b, d, col, cr, moves, rest)) \<Rightarrow> (2 * d + 1, length moves))")
     auto

declare minimax.simps [simp del]

section \<open>Numbers of the script\<close>

text \<open>
  A JavaScript number is an IEEE 754 binary64 value. The coordinates, counters and scores of the
  engine are small integers, on which the arithmetic is exact. The difficulty policy also
  multiplies a draw of \<^verbatim>\<open>Math.random()\<close> by a list length and compares a draw with a
  blunder rate written as a decimal literal; there the value is the exact result rounded to the
  nearest binary64 number, ties to the even significand.

  \<open>ulpExponent x\<close> is the exponent of the unit in the last place at the magnitude of \<open>x\<close>: the
  least \<open>e\<close> from -1074 on with \<open>\<bar>x\<bar> < 2 powi (e + 53)\<close>, found by a scan of the 2046 exponents
  of the format.
\<close>

fun ulpFrom :: "nat \<Rightarrow> int \<Rightarrow> rat \<Rightarrow> int" where
  "ulpFrom 0 e x = e"
| "ulpFrom (Suc n) e x = (if x < 2 powi (e + 53) then e else ulpFrom n (e + 1) x)"

definition ulpExponent :: "rat \<Rightarrow> int" where
  "ulpExponent x = ulpFrom 2045 (- 1074) \<bar>x\<bar>"

text \<open>The nearest integer, a tie going to the even one.\<close>

definition roundEven :: "rat \<Rightarrow> int" where
  "roundEven q =
     (let f = \<lfloor>q\<rfloor>; d = q - of_int f
      in if d < 1 / 2 then f
         else if 1 / 2 < d then f + 1
         else if even f then f else f + 1)"

text \<open>
  The binary64 number nearest to a rational below the overflow threshold (every number the
  policy forms is below \<open>2 ^ 53\<close>).
\<close>

definition binary64 :: "rat \<Rightarrow> rat" where
  "binary64 x = of_int (roundEven (x / 2 powi ulpExponent x)) * 2 powi ulpExponent x"

section \<open>Difficulty Policy\<close>

text \<open>
  A tier of \<^verbatim>\<open>ELO_CONFIG\<close>: the search depth and the blunder rate (the display name is
  left out). Every tier has a depth of at least 1. A rate such as \<^verbatim>\<open>0.3\<close> is the binary64
  number nearest to the decimal.
\<close>

record config =
  depth :: nat
  blunderRate :: rat

definition ELO_CONFIG :: "(nat \<times> config) list" where
  "ELO_CONFIG =
     [(250, \<lparr>depth = 1, blunderRate = binary64 (5 / 10)\<rparr>),
      (500, \<lparr>depth = 1, blunderRate = binary64 (3 / 10)\<rparr>),
      (800, \<lparr>depth = 2, blunderRate = binary64 (2 / 10)\<rparr>),
      (1100, \<lparr>depth = 2, blunderRate = binary64 (8 / 100)\<rparr>),
      (1400, \<lparr>depth = 3, blunderRate = binary64 (3 / 100)\<rparr>),
      (1800, \<lparr>depth = 3, blunderRate = binary64 0\<rparr>)]"

text \<open>
  The \<^verbatim>\<open>moves.map\<close> of \<^verbatim>\<open>fallbackAIMove\<close>: each move is simulated on a copy of the
  global board and scored by the search at \<^verbatim>\<open>config.depth - 1\<close> for white to act. The copy
  of the castling rights is passed as it is.
\<close>

fun scoreMoves :: "config \<Rightarrow> move list \<Rightarrow> game \<Rightarrow> (move \<times> ext) list \<times> game" where
  "scoreMoves cfg [] g = ([], g)"
| "scoreMoves cfg (m # ms) g =
     (let newBoard = simBoard m (board g);
          newCR = castlingRights g;
          newEP = simEP m;
          (score, g') = minimax newBoard (depth cfg - 1) NegInf PosInf False White newCR newEP g;
          (rest, g'') = scoreMoves cfg ms g'
      in ((m, score) # rest, g''))"

text \<open>
  \<^verbatim>\<open>scoredMoves.sort((a, b) => b.score - a.score)\<close>: a stable sort into descending score.
\<close>

fun insertDesc :: "(move \<times> ext) \<Rightarrow> (move \<times> ext) list \<Rightarrow> (move \<times> ext) list" where
  "insertDesc x [] = [x]"
| "insertDesc x (y # ys) =
     (if \<not> ext_le (snd y) (snd x) then y # insertDesc x ys else x # y # ys)"

definition sortDesc :: "(move \<times> ext) list \<Rightarrow> (move \<times> ext) list" where
  "sortDesc xs = foldr insertDesc xs []"

text \<open>\<^verbatim>\<open>bestScore - 10\<close>\<close>

fun ext_minus :: "ext \<Rightarrow> int \<Rightarrow> ext" where
  "ext_minus (Fin x) k = Fin (x - k)"
| "ext_minus NegInf k = NegInf"
| "ext_minus PosInf k = PosInf"

text \<open>
  \<^verbatim>\<open>xs[Math.floor(Math.random() * xs.length)]\<close> for the draw \<open>u\<close>: the product is rounded
  to binary64 before the floor, so the index can be one above the floor of the exact product.
  \<^verbatim>\<open>Math.random()\<close> returns a binary64 number that is at least 0 and below 1, which keeps
  the index inside the list; for any other number the model has no element where the script
  would read \<^verbatim>\<open>undefined\<close>.
\<close>

definition pick :: "'a list \<Rightarrow> rat \<Rightarrow> 'a option" where
  "pick xs u =
     (let i = \<lfloor>binary64 (u * of_nat (length xs))\<rfloor>
      in if 0 \<le> i \<and> nat i < length xs then Some (xs ! nat i) else None)"

text \<open>
  \<^verbatim>\<open>fallbackAIMove\<close> up to the choice of \<^verbatim>\<open>chosenMove\<close>; \<open>u1\<close> and \<open>u2\<close> are the two
  draws of \<^verbatim>\<open>Math.random()\<close> in the order the script makes them.
\<close>

definition chooseMove :: "config \<Rightarrow> rat \<Rightarrow> rat \<Rightarrow> game \<Rightarrow> move option \<times> game" where
  "chooseMove cfg u1 u2 g =
     (let moves = getLegalMoves Black g
      in if moves = [] then (None, g)
         else
           let (scored, g') = scoreMoves cfg moves g;
               scoredMoves = sortDesc scored
           in if u1 < blunderRate cfg \<and> length scoredMoves > 1
              then (let bottomHalf = drop (length scoredMoves div 2) scoredMoves
                    in (map_option fst (pick bottomHalf u2), g'))
              else (let bestScore = snd (hd scoredMoves);
                        topMoves = filter (\<lambda>m. ext_le (ext_minus bestScore 10) (snd m)) scoredMoves
                    in (map_option fst (pick topMoves u2), g')))"

definition fallbackAIMove :: "config \<Rightarrow> rat \<Rightarrow> rat \<Rightarrow> game \<Rightarrow> error + game" where
  "fallbackAIMove cfg u1 u2 g =
     (if getLegalMoves Black g = [] then Inr g
      else case chooseMove cfg u1 u2 g of
             (None, g') \<Rightarrow> Inl TypeError
           | (Some chosenMove, g') \<Rightarrow> makeMove chosenMove None g')"

section \<open>Position serialization\<close>

definition digitChar :: "nat \<Rightarrow> char" where
  "digitChar n = char_of (48 + n)"

text \<open>The decimal numeral that JavaScript appends for a non-negative integer.\<close>

fun showNat :: "nat \<Rightarrow> string" where
  "showNat n = (if n < 10 then [digitChar n] else showNat (n div 10) @ [digitChar (n mod 10)])"

declare showNat.simps [simp del]

definition showInt :: "int \<Rightarrow> string" where
  "showInt i = (if i < 0 then CHR ''-'' # showNat (nat (- i)) else showNat (nat i))"

text \<open>\<^verbatim>\<open>pieceMap[piece[1]]\<close>\<close>

fun pieceMap :: "ptype \<Rightarrow> char" where
  "pieceMap Pawn = CHR ''p''"
| "pieceMap Rook = CHR ''r''"
| "pieceMap Knight = CHR ''n''"
| "pieceMap Bishop = CHR ''b''"
| "pieceMap Queen = CHR ''q''"
| "pieceMap King = CHR ''k''"

text \<open>\<^verbatim>\<open>ch.toUpperCase()\<close> on a one-letter string of the ASCII range.\<close>

definition toUpperCase :: "char \<Rightarrow> char" where
  "toUpperCase ch =
     (if (97::nat) \<le> of_char ch \<and> of_char ch \<le> (122::nat)
      then char_of (of_char ch - (32::nat)) else ch)"

text \<open>
  One step of the inner loop of \<^verbatim>\<open>boardToFEN\<close> on the pair of the text so far and
  \<^verbatim>\<open>emptyCount\<close>.
\<close>

definition fenCell :: "string \<times> nat \<Rightarrow> piece option \<Rightarrow> string \<times> nat" where
  "fenCell acc p =
     (case p of
        None \<Rightarrow> (fst acc, snd acc + 1)
      | Some piece \<Rightarrow>
          ((if snd acc > 0 then fst acc @ showNat (snd acc) else fst acc)
             @ [if fst piece = White then toUpperCase (pieceMap (snd piece))
                else pieceMap (snd piece)],
           0))"

definition fenRow :: "board \<Rightarrow> string \<Rightarrow> int \<Rightarrow> string" where
  "fenRow b fen r =
     (let acc = foldl (\<lambda>acc c. fenCell acc (cell b r c)) (fen, 0) [0..7];
          fen1 = (if snd acc > 0 then fst acc @ showNat (snd acc) else fst acc)
      in if r < 7 then fen1 @ ''/'' else fen1)"

definition castlingToken :: "rights \<Rightarrow> string" where
  "castlingToken cr =
     (let castling = (if kingSide (white cr) then ''K'' else [])
                     @ (if queenSide (white cr) then ''Q'' else [])
                     @ (if kingSide (black cr) then ''k'' else [])
                     @ (if queenSide (black cr) then ''q'' else [])
      in if castling = [] then ''-'' else castling)"

definition boardToFEN :: "game \<Rightarrow> string" where
  "boardToFEN g =
     (let fen0 = foldl (fenRow (board g)) [] [0..7];
          fen1 = fen0 @ '' '' @ (if turn g = White then ''w'' else ''b'');
          fen2 = fen1 @ '' '' @ castlingToken (castlingRights g);
          fen3 = (case enPassantTarget g of
                    Some ep \<Rightarrow> fen2 @ '' '' @ [char_of (97 + snd ep)] @ showInt (8 - fst ep)
                  | None \<Rightarrow> fen2 @ '' -'');
          fen4 = fen3 @ '' '' @ showNat (halfMoveClock g)
      in fen4 @ '' '' @ showNat (max 1 (moveCount g)))"

section \<open>The evaluator as the specification words it\<close>

text \<open>
  The score of one square and of a position as the specification states them: the material value
  plus the table bonus, the row mirrored for white, counted for black and against white, summed
  over the 64 squares.
\<close>

definition spec_material :: "ptype \<Rightarrow> int" where
  "spec_material t =
     (case t of Pawn \<Rightarrow> 100 | Knight \<Rightarrow> 320 | Bishop \<Rightarrow> 330
              | Rook \<Rightarrow> 500 | Queen \<Rightarrow> 900 | King \<Rightarrow> 20000)"

definition spec_squareScore :: "board \<Rightarrow> int \<Rightarrow> int \<Rightarrow> int" where
  "spec_squareScore b r c =
     (case cell b r c of
        None \<Rightarrow> 0
      | Some piece \<Rightarrow>
          (if fst piece = Black then 1 else - 1)
          * (spec_material (snd piece)
             + PST (snd piece) ! nat (if fst piece = Black then r else 7 - r) ! nat c))"

definition spec_score :: "board \<Rightarrow> int" where
  "spec_score b = (\<Sum>r = 0..7. \<Sum>c = 0..7. spec_squareScore b r c)"

section \<open>The serialization as the specification words it\<close>

text \<open>
  The letter of a piece: \<^verbatim>\<open>p r n b q k\<close>, uppercase for white and lowercase for black.
\<close>

definition spec_pieceLetter :: "piece \<Rightarrow> char" where
  "spec_pieceLetter p =
     (case p of
        (White, Pawn) \<Rightarrow> CHR ''P'' | (White, Rook) \<Rightarrow> CHR ''R'' | (White, Knight) \<Rightarrow> CHR ''N''
      | (White, Bishop) \<Rightarrow> CHR ''B'' | (White, Queen) \<Rightarrow> CHR ''Q'' | (White, King) \<Rightarrow> CHR ''K''
      | (Black, Pawn) \<Rightarrow> CHR ''p'' | (Black, Rook) \<Rightarrow> CHR ''r'' | (Black, Knight) \<Rightarrow> CHR ''n''
      | (Black, Bishop) \<Rightarrow> CHR ''b'' | (Black, Queen) \<Rightarrow> CHR ''q'' | (Black, King) \<Rightarrow> CHR ''k'')"

text \<open>
  One rank, run-length encoded: a piece is its letter, a maximal run of empty squares is the
  digit of its length.
\<close>

function spec_rank :: "piece option list \<Rightarrow> string" where
  "spec_rank [] = []"
| "spec_rank (Some p # xs) = spec_pieceLetter p # spec_rank xs"
| "spec_rank (None # xs) =
     digitChar (Suc (length (takeWhile (\<lambda>x. x = None) xs)))
       # spec_rank (dropWhile (\<lambda>x. x = None) xs)"
  by pat_completeness auto
termination
  by (relation "measure length") (auto simp: less_Suc_eq_le length_dropWhile_le)

fun spec_join :: "string \<Rightarrow> string list \<Rightarrow> string" where
  "spec_join sep [] = []"
| "spec_join sep [x] = x"
| "spec_join sep (x # y # ys) = x @ sep @ spec_join sep (y # ys)"

definition spec_placement :: "board \<Rightarrow> string" where
  "spec_placement b =
     spec_join ''/'' (map (\<lambda>r. spec_rank (map (\<lambda>c. cell b r c) [0..7])) [0..7])"

definition spec_castling :: "rights \<Rightarrow> string" where
  "spec_castling cr =
     (let held = filter (\<lambda>ch. (ch = CHR ''K'' \<and> kingSide (white cr))
                            \<or> (ch = CHR ''Q'' \<and> queenSide (white cr))
                            \<or> (ch = CHR ''k'' \<and> kingSide (black cr))
                            \<or> (ch = CHR ''q'' \<and> queenSide (black cr))) ''KQkq''
      in if held = [] then ''-'' else held)"

definition spec_enPassant :: "square option \<Rightarrow> string" where
  "spec_enPassant ep =
     (case ep of
        None \<Rightarrow> ''-''
      | Some sq \<Rightarrow> [char_of (of_char (CHR ''a'') + snd sq), digitChar (nat (8 - fst sq))])"

text \<open>The number that a string of decimal digits denotes.\<close>

definition spec_readDecimal :: "string \<Rightarrow> nat" where
  "spec_readDecimal s = foldl (\<lambda>a ch. 10 * a + (of_char ch - 48)) 0 s"

definition spec_fen :: "game \<Rightarrow> string" where
  "spec_fen g =
     spec_join '' ''
       [spec_placement (board g),
        (if turn g = White then ''w'' else ''b''),
        spec_castling (castlingRights g),
        spec_enPassant (enPassantTarget g),
        showNat (halfMoveClock g),
        showNat (max 1 (moveCount g))]"

section \<open>The scored and ordered moves of the difficulty policy\<close>

text \<open>
  The score that \<^verbatim>\<open>fallbackAIMove\<close> gives a move of the computer's side: the search at
  \<^verbatim>\<open>config.depth - 1\<close> on the simulated board, white to act. \<open>rankedMoves\<close> is the list of
  the scored legal moves after the sort.
\<close>

definition moveScore :: "config \<Rightarrow> game \<Rightarrow> move \<Rightarrow> ext" where
  "moveScore cfg g m =
     fst (minimax (simBoard m (board g)) (depth cfg - 1) NegInf PosInf False White
            (castlingRights g) (simEP m) g)"

definition rankedMoves :: "config \<Rightarrow> game \<Rightarrow> (move \<times> ext) list" where
  "rankedMoves cfg g = sortDesc (map (\<lambda>m. (m, moveScore cfg g m)) (getLegalMoves Black g))"

text \<open>
  The candidates of the choice: the lower half of the ordered moves for a blunder, the moves
  within 10 of the best score otherwise.
\<close>

definition candidates :: "config \<Rightarrow> bool \<Rightarrow> game \<Rightarrow> (move \<times> ext) list" where
  "candidates cfg blunder g =
     (if blunder then drop (length (rankedMoves cfg g) div 2) (rankedMoves cfg g)
      else filter (\<lambda>x. ext_le (ext_minus (snd (hd (rankedMoves cfg g))) 10) (snd x))
             (rankedMoves cfg g))"

section \<open>Example positions\<close>

definition emptyRow :: "piece option list" where
  "emptyRow = [None, None, None, None, None, None, None, None]"

definition noRights :: rights where
  "noRights = \<lparr>white = \<lparr>kingSide = False, queenSide = False\<rparr>,
               black = \<lparr>kingSide = False, queenSide = False\<rparr>\<rparr>"

text \<open>White to move with king and both rooks on their home squares and all rights held.\<close>

definition castlePosition :: game where
  "castlePosition =
     (initGame Pvp)\<lparr>board :=
       [[None, None, None, None, Some (Black, King), None, None, None],
        emptyRow, emptyRow, emptyRow, emptyRow, emptyRow, emptyRow,
        [Some (White, Rook), None, None, None, Some (White, King), None, None,
         Some (White, Rook)]]\<rparr>"

text \<open>Black king in the corner, mated by the white queen that the white king protects.\<close>

definition mateBoard :: board where
  "mateBoard =
     [[Some (Black, King), None, None, None, None, None, None, None],
      [None, Some (White, Queen), None, None, None, None, None, None],
      [None, None, Some (White, King), None, None, None, None, None],
      emptyRow, emptyRow, emptyRow, emptyRow, emptyRow]"

text \<open>The same corner with the queen one file further: black has no move and is not in check.\<close>

definition stalemateBoard :: board where
  "stalemateBoard =
     [[Some (Black, King), None, None, None, None, None, None, None],
      [None, None, Some (White, Queen), None, None, None, None, None],
      [None, Some (White, King), None, None, None, None, None, None],
      emptyRow, emptyRow, emptyRow, emptyRow, emptyRow]"

text \<open>White to move in a two-player game, with a pawn one step from the last rank.\<close>

definition promotionPosition :: game where
  "promotionPosition =
     (initGame Pvp)\<lparr>board :=
       [[None, None, None, None, Some (Black, King), None, None, None],
        [Some (White, Pawn), None, None, None, None, None, None, None],
        emptyRow, emptyRow, emptyRow, emptyRow, emptyRow,
        [None, None, None, None, Some (White, King), None, None, None]],
       castlingRights := noRights\<rparr>"

text \<open>The game after white's double push e2-e4 from the initial position.\<close>

definition afterE4 :: game where
  "afterE4 =
     (initGame Pvp)\<lparr>board :=
       [[Some (Black, Rook), Some (Black, Knight), Some (Black, Bishop), Some (Black, Queen),
         Some (Black, King), Some (Black, Bishop), Some (Black, Knight), Some (Black, Rook)],
        [Some (Black, Pawn), Some (Black, Pawn), Some (Black, Pawn), Some (Black, Pawn),
         Some (Black, Pawn), Some (Black, Pawn), Some (Black, Pawn), Some (Black, Pawn)],
        emptyRow, emptyRow,
        [None, None, None, None, Some (White, Pawn), None, None, None],
        emptyRow,
        [Some (White, Pawn), Some (White, Pawn), Some (White, Pawn), Some (White, Pawn),
         None, Some (White, Pawn), Some (White, Pawn), Some (White, Pawn)],
        [Some (White, Rook), Some (White, Knight), Some (White, Bishop), Some (White, Queen),
         Some (White, King), Some (White, Bishop), Some (White, Knight), Some (White, Rook)]],
       turn := Black, moveCount := 2, enPassantTarget := Some (5, 4)\<rparr>"

text \<open>The two kings in opposite corners, black (the computer's side) to move in solo mode.\<close>

definition kingsPosition :: game where
  "kingsPosition =
     (initGame Solo)\<lparr>board :=
       [[Some (Black, King), None, None, None, None, None, None, None],
        emptyRow, emptyRow, emptyRow, emptyRow, emptyRow, emptyRow,
        [None, None, None, None, None, None, None, Some (White, King)]],
       turn := Black, castlingRights := noRights\<rparr>"

text \<open>
  A sequence of moves entered on the board: the click handler looks the move up in
  \<^verbatim>\<open>getLegalMoves(turn)\<close> and passes it to \<^verbatim>\<open>makeMove\<close>; a move that is not legal is
  not played.
\<close>

fun playMoves :: "move list \<Rightarrow> game \<Rightarrow> game option" where
  "playMoves [] g = Some g"
| "playMoves (m # ms) g =
     (if m \<in> set (getLegalMoves (turn g) g)
      then (case makeMove m None g of Inl e \<Rightarrow> None | Inr g' \<Rightarrow> playMoves ms g')
      else None)"

text \<open>
  A game of sixteen legal moves in which the black king walks to a1 and captures the rook there
  while the white king stays on e1: 1. d3 e6 2. Bh6 Ke7 3. Nd2 Kd6 4. e3 Kc5 5. Qe2 Kb4 6. b3 Ka3
  7. h3 Kb2 8. g3 Kxa1.
\<close>

definition kingWalk :: "move list" where
  "kingWalk =
     [addMove 6 3 5 3 None, addMove 1 4 2 4 None,
      addMove 7 2 2 7 None, addMove 0 4 1 4 None,
      addMove 7 1 6 3 None, addMove 1 4 2 3 None,
      addMove 6 4 5 4 None, addMove 2 3 3 2 None,
      addMove 7 3 6 4 None, addMove 3 2 4 1 None,
      addMove 6 1 5 1 None, addMove 4 1 5 0 None,
      addMove 6 7 5 7 None, addMove 5 0 6 1 None,
      addMove 6 6 5 6 None, addMove 6 1 7 0 None]"

text \<open>
  The position after that game: white to move, the white king on e1 with the queen-side right
  still held, b1, c1 and d1 empty, and the black king on a1.
\<close>

definition cornerKingPosition :: game where
  "cornerKingPosition =
     \<lparr>board =
        [[Some (Black, Rook), Some (Black, Knight), Some (Black, Bishop), Some (Black, Queen),
          None, Some (Black, Bishop), Some (Black, Knight), Some (Black, Rook)],
         [Some (Black, Pawn), Some (Black, Pawn), Some (Black, Pawn), Some (Black, Pawn),
          None, Some (Black, Pawn), Some (Black, Pawn), Some (Black, Pawn)],
         [None, None, None, None, Some (Black, Pawn), None, None, Some (White, Bishop)],
         emptyRow,
         emptyRow,
         [None, Some (White, Pawn), None, Some (White, Pawn), Some (White, Pawn), None,
          Some (White, Pawn), Some (White, Pawn)],
         [Some (White, Pawn), None, Some (White, Pawn), Some (White, Knight),
          Some (White, Queen), Some (White, Pawn), None, None],
         [Some (Black, King), None, None, None, Some (White, King), Some (White, Bishop),
          Some (White, Knight), Some (White, Rook)]],
      turn = White,
      gameMode = Pvp,
      capturedPieces_w = [(White, Rook)],
      capturedPieces_b = [],
      moveCount = 9,
      halfMoveClock = 0,
      castlingRights = \<lparr>white = \<lparr>kingSide = True, queenSide = True\<rparr>,
                        black = \<lparr>kingSide = False, queenSide = False\<rparr>\<rparr>,
      enPassantTarget = None,
      pendingPromotion = None\<rparr>"

section \<open>Facts about the generator and the legal-move set\<close>

lemma allSquares_valid: "(r, c) \<in> set allSquares \<longleftrightarrow> isValidSquare r c"
  by (auto simp: allSquares_def isValidSquare_def image_iff)

lemma set_safeMoves: "set (safeMoves col g ms) = {m \<in> set ms. isMoveSafe m col g}"
  by (induction ms) auto

lemma movesAt_iff:
  "m \<in> set (movesAt b col g sq) \<longleftrightarrow>
     (\<exists>p. cell b (fst sq) (snd sq) = Some p \<and> fst p = col
          \<and> m \<in> set (getPseudoLegalMoves (fst sq) (snd sq) p g) \<and> isMoveSafe m col g)"
  by (cases "cell b (fst sq) (snd sq)") (auto simp: movesAt_def set_safeMoves)

lemma gatherMoves_iff:
  "m \<in> set (gatherMoves b col g) \<longleftrightarrow>
     (\<exists>r c p. isValidSquare r c \<and> cell b r c = Some p \<and> fst p = col
        \<and> m \<in> set (getPseudoLegalMoves r c p g) \<and> isMoveSafe m col g)"
proof -
  have "m \<in> set (gatherMoves b col g) \<longleftrightarrow> (\<exists>sq \<in> set allSquares. m \<in> set (movesAt b col g sq))"
    by (simp add: gatherMoves_def)
  also have "\<dots> \<longleftrightarrow> (\<exists>r c p. isValidSquare r c \<and> cell b r c = Some p \<and> fst p = col
        \<and> m \<in> set (getPseudoLegalMoves r c p g) \<and> isMoveSafe m col g)"
    unfolding movesAt_iff by (force simp: allSquares_valid[symmetric])
  finally show ?thesis .
qed

lemma getLegalMoves_gather: "getLegalMoves col g = gatherMoves (board g) col g"
  by (simp add: getLegalMoves_def gatherMoves_def)

lemma slideMoves_shape:
  "m \<in> set (slideMoves b e r c dr dc tr tc) \<Longrightarrow>
     from_sq m = (r, c) \<and> special m = None \<and> isValidSquare (fst (to_sq m)) (snd (to_sq m))"
proof (induction b e r c dr dc tr tc rule: slideMoves.induct)
  case (1 b e r c dr dc tr tc)
  show ?case
  proof (cases "isValidSquare tr tc \<and> (dr \<noteq> 0 \<or> dc \<noteq> 0)")
    case False
    with "1.prems" show ?thesis by (subst (asm) slideMoves.simps) simp
  next
    case True
    show ?thesis
    proof (cases "cell b tr tc")
      case None
      with True "1.prems"
      have "m = addMove r c tr tc None \<or> m \<in> set (slideMoves b e r c dr dc (tr + dr) (tc + dc))"
        by (subst (asm) slideMoves.simps) auto
      then show ?thesis
      proof
        assume "m = addMove r c tr tc None"
        with True show ?thesis by (simp add: addMove_def)
      next
        assume "m \<in> set (slideMoves b e r c dr dc (tr + dr) (tc + dc))"
        with "1.IH"[OF True None] show ?thesis by simp
      qed
    next
      case (Some p)
      with True "1.prems" have "m = addMove r c tr tc None"
        by (subst (asm) slideMoves.simps) (auto split: if_splits)
      with True show ?thesis by (simp add: addMove_def)
    qed
  qed
qed

lemma pawnMoves_shape:
  "m \<in> set (pawnMoves r c col g) \<Longrightarrow>
     from_sq m = (r, c) \<and> isValidSquare (fst (to_sq m)) (snd (to_sq m))
     \<and> fst (to_sq m) \<noteq> r
     \<and> (special m = None \<or> special m = Some DoublePush \<or> special m = Some EnPassant)"
  by (auto simp: pawnMoves_def addMove_def Let_def split: if_splits)

lemma knightMoves_shape:
  "m \<in> set (knightMoves r c col g) \<Longrightarrow>
     from_sq m = (r, c) \<and> special m = None \<and> isValidSquare (fst (to_sq m)) (snd (to_sq m))"
  by (auto simp: knightMoves_def addMove_def Let_def split: if_splits)

lemma kingMoves_shape:
  "m \<in> set (kingMoves r c col g) \<Longrightarrow>
     from_sq m = (r, c)
     \<and> (special m = None \<and> isValidSquare (fst (to_sq m)) (snd (to_sq m))
        \<or> special m = Some CastleKS \<and> to_sq m = (r, c + 2) \<and> canCastle_kingSide col g
            \<and> cell (board g) r (c + 1) = None \<and> cell (board g) r (c + 2) = None
        \<or> special m = Some CastleQS \<and> to_sq m = (r, c - 2) \<and> canCastle_queenSide col g
            \<and> cell (board g) r (c - 1) = None \<and> cell (board g) r (c - 2) = None
            \<and> cell (board g) r (c - 3) = None)"
  by (auto simp: kingMoves_def addMove_def Let_def split: if_splits)

lemma slidingMoves_shape:
  "m \<in> set (slidingMoves r c p g) \<Longrightarrow>
     from_sq m = (r, c) \<and> special m = None \<and> isValidSquare (fst (to_sq m)) (snd (to_sq m))"
  by (auto simp: slidingMoves_def dest: slideMoves_shape)


lemma getPseudoLegalMoves_from:
  "m \<in> set (getPseudoLegalMoves r c p g) \<Longrightarrow> from_sq m = (r, c)"
  by (auto simp: getPseudoLegalMoves_def split: if_splits
      dest: pawnMoves_shape knightMoves_shape kingMoves_shape slidingMoves_shape)

lemma getPseudoLegalMoves_castle:
  assumes "m \<in> set (getPseudoLegalMoves r c p g)"
    and "special m = Some CastleKS \<or> special m = Some CastleQS"
  shows "snd p = King \<and> m \<in> set (kingMoves r c (fst p) g)"
  using assms
  by (auto simp: getPseudoLegalMoves_def split: if_splits
      dest: pawnMoves_shape knightMoves_shape slidingMoves_shape)

lemma length_concat_map_le:
  "(\<And>x. x \<in> set xs \<Longrightarrow> length (f x) \<le> B) \<Longrightarrow> length (concat (map f xs)) \<le> length xs * B"
proof (induction xs)
  case Nil
  show ?case by simp
next
  case (Cons x xs)
  have "length (f x) \<le> B" by (rule Cons.prems) simp
  moreover have "length (concat (map f xs)) \<le> length xs * B"
    by (rule Cons.IH) (simp add: Cons.prems)
  ultimately show ?case by simp
qed

lemma length_slideMoves: "length (slideMoves b e r c dr dc tr tc) \<le> 8"
proof -
  have "length (slideMoves b e r c dr dc tr tc)
      \<le> (if isValidSquare tr tc \<and> (dr \<noteq> 0 \<or> dc \<noteq> 0)
         then nat (if dr > 0 then 8 - tr else if dr < 0 then tr + 1
                   else if dc > 0 then 8 - tc else tc + 1)
         else 0)"
  proof (induction b e r c dr dc tr tc rule: slideMoves.induct)
    case (1 b e r c dr dc tr tc)
    show ?case
    proof (cases "isValidSquare tr tc \<and> (dr \<noteq> 0 \<or> dc \<noteq> 0)")
      case False
      then have "slideMoves b e r c dr dc tr tc = []"
        by (subst slideMoves.simps) auto
      then show ?thesis by simp
    next
      case True
      show ?thesis
      proof (cases "cell b tr tc")
        case None
        with True have u: "slideMoves b e r c dr dc tr tc
            = addMove r c tr tc None # slideMoves b e r c dr dc (tr + dr) (tc + dc)"
          by (subst slideMoves.simps) auto
        from "1.IH"[OF True None] True show ?thesis
          unfolding u by (auto simp: isValidSquare_def split: if_splits)
      next
        case (Some p)
        with True have "length (slideMoves b e r c dr dc tr tc) \<le> 1"
          by (subst slideMoves.simps) auto
        with True show ?thesis
          by (auto simp: isValidSquare_def)
      qed
    qed
  qed
  also have "\<dots> \<le> 8" by (auto simp: isValidSquare_def)
  finally show ?thesis .
qed

lemma length_safeMoves: "length (safeMoves col g ms) \<le> length ms"
  by (induction ms) auto

lemma length_if_le: "length xs \<le> B \<Longrightarrow> length ys \<le> B \<Longrightarrow> length (if P then xs else ys) \<le> B"
  by simp

lemma length_pawnMoves: "length (pawnMoves r c col g) \<le> 64"
proof -
  define direction :: int where "direction = (if col = White then - 1 else 1)"
  define fwd where "fwd =
     (if isValidSquare (r + direction) c \<and> cell (board g) (r + direction) c = None
          then addMove r c (r + direction) c None #
               (if (col = White \<and> r = 6) \<or> (col = Black \<and> r = 1)
                then (if isValidSquare (r + direction * 2) c
                         \<and> cell (board g) (r + direction * 2) c = None
                      then [addMove r c (r + direction * 2) c (Some DoublePush)] else [])
                else [])
          else [])"
  define cap where "cap = (\<lambda>(tr, tc).
             if isValidSquare tr tc
             then (if startsWith (cell (board g) tr tc) (opponent col)
                   then [addMove r c tr tc None] else [])
                  @ (if enPassantTarget g = Some (tr, tc)
                     then [addMove r c tr tc (Some EnPassant)] else [])
             else [])"
  have p: "pawnMoves r c col g
      = fwd @ concat (map cap [(r + direction, c - 1), (r + direction, c + 1)])"
    by (simp only: pawnMoves_def Let_def fwd_def cap_def direction_def)
  have f: "length fwd \<le> 2"
    unfolding fwd_def by (intro length_if_le) simp_all
  have "length (concat (map cap [(r + direction, c - 1), (r + direction, c + 1)]))
      \<le> length [(r + direction, c - 1), (r + direction, c + 1)] * 2"
    by (rule length_concat_map_le) (auto simp: cap_def)
  with f show ?thesis unfolding p by simp
qed

lemma length_knightMoves: "length (knightMoves r c col g) \<le> 64"
proof -
  have "length (knightMoves r c col g) \<le> length knightOffsets * 1"
    unfolding knightMoves_def by (rule length_concat_map_le) (auto simp: Let_def)
  moreover have "length knightOffsets = 8" by (simp add: knightOffsets_def)
  ultimately show ?thesis by simp
qed

lemma length_kingMoves: "length (kingMoves r c col g) \<le> 64"
proof -
  have "length (concat (map (\<lambda>(dr, dc).
       let tr = r + dr; tc = c + dc
       in if isValidSquare tr tc
             \<and> (cell (board g) tr tc = None \<or> startsWith (cell (board g) tr tc) (opponent col))
          then [addMove r c tr tc None] else [])
       kingOffsets)) \<le> length kingOffsets * 1"
    by (rule length_concat_map_le) (auto simp: Let_def)
  moreover have "length kingOffsets = 8" by (simp add: kingOffsets_def)
  ultimately show ?thesis unfolding kingMoves_def length_append by (simp del: map_eq_conv)
qed

lemma length_slidingMoves: "length (slidingMoves r c p g) \<le> 64"
proof -
  have "length (slidingMoves r c p g) \<le> length (slideDirections (snd p)) * 8"
    unfolding slidingMoves_def
    by (rule length_concat_map_le) (auto simp: length_slideMoves)
  also have "\<dots> \<le> 64" by (simp add: slideDirections_def)
  finally show ?thesis .
qed

lemma length_getPseudoLegalMoves: "length (getPseudoLegalMoves r c p g) \<le> 64"
  by (simp add: getPseudoLegalMoves_def length_pawnMoves length_knightMoves length_kingMoves
      length_slidingMoves)

lemma length_movesAt: "length (movesAt b col g sq) \<le> 64"
proof (cases "cell b (fst sq) (snd sq)")
  case None
  then show ?thesis by (simp add: movesAt_def)
next
  case (Some p)
  have "length (safeMoves col g (getPseudoLegalMoves (fst sq) (snd sq) p g)) \<le> 64"
    using length_safeMoves length_getPseudoLegalMoves le_trans by blast
  with Some show ?thesis by (simp add: movesAt_def)
qed

text \<open>A side has at most 64 times 64 legal moves, far fewer than \<open>2 ^ 53\<close>.\<close>

lemma length_getLegalMoves: "length (getLegalMoves col g) \<le> 4096"
proof -
  have "length (getLegalMoves col g) \<le> length allSquares * 64"
    unfolding getLegalMoves_def by (rule length_concat_map_le) (rule length_movesAt)
  moreover have "length allSquares = 64" by code_simp
  ultimately show ?thesis by simp
qed

section \<open>Facts about the executor, the evaluator and the search\<close>

lemma trackCapture_fields [simp]:
  "board (trackCapture p g) = board g"
  "turn (trackCapture p g) = turn g"
  "gameMode (trackCapture p g) = gameMode g"
  "moveCount (trackCapture p g) = moveCount g"
  "halfMoveClock (trackCapture p g) = halfMoveClock g"
  "castlingRights (trackCapture p g) = castlingRights g"
  "enPassantTarget (trackCapture p g) = enPassantTarget g"
  "pendingPromotion (trackCapture p g) = pendingPromotion g"
  by (simp_all add: trackCapture_def split: option.splits)

lemma commitMove_counters:
  "moveCount (commitMove m promo fromPiece g)
     = (if turn g = White then moveCount g + 1 else moveCount g)"
  "halfMoveClock (commitMove m promo fromPiece g)
     = (if snd fromPiece = Pawn \<or> cell (board g) (fst (to_sq m)) (snd (to_sq m)) \<noteq> None
        then 0 else halfMoveClock g + 1)"
  "turn (commitMove m promo fromPiece g) = (if turn g = White then Black else White)"
  "pendingPromotion (commitMove m promo fromPiece g) = pendingPromotion g"
  by (simp_all add: commitMove_def Let_def)

lemma trackCapture_pending:
  "trackCapture p (g\<lparr>pendingPromotion := x\<rparr>) = (trackCapture p g)\<lparr>pendingPromotion := x\<rparr>"
  by (simp add: trackCapture_def split: option.splits)

lemma commitMove_pending:
  "commitMove m promo fromPiece (g\<lparr>pendingPromotion := x\<rparr>)
     = (commitMove m promo fromPiece g)\<lparr>pendingPromotion := x\<rparr>"
  by (simp add: commitMove_def Let_def trackCapture_pending cong: option.case_cong if_cong)

lemma PIECE_VALUES_spec: "PIECE_VALUES t = spec_material t"
  by (cases t) (simp_all add: spec_material_def)

lemma evalSquare_spec:
  "evalSquare b s sq = s + spec_squareScore b (fst sq) (snd sq)"
  by (simp add: evalSquare_def spec_squareScore_def PIECE_VALUES_spec Let_def
      split: option.splits)

lemma foldl_evalSquare:
  "foldl (evalSquare b) s xs = s + sum_list (map (\<lambda>sq. spec_squareScore b (fst sq) (snd sq)) xs)"
  by (induction xs arbitrary: s) (simp_all add: evalSquare_spec)

lemma sum_list_concat_rows: "sum_list (concat xss) = sum_list (map sum_list (xss :: int list list))"
  by (induction xss) simp_all

lemma sum_list_upto: "sum_list (map f [0..7]) = (\<Sum>i = (0::int)..7. f i)"
  by (simp add: sum_set_upto_conv_sum_list_int[symmetric])

text \<open>The search hands back the game it was given: the swap of the globals is undone.\<close>

lemma minimax_frame:
  "snd (minimax b d al be mx ct cr ep g) = g"
  "snd (maxLoop b d col cr ms al be ev g) = g"
  "snd (minLoop b d col cr ms al be ev g) = g"
proof (induction b d al be mx ct cr ep g and b d col cr ms al be ev g and b d col cr ms al be ev g
       rule: minimax_maxLoop_minLoop.induct)
  case (1 boardState d alpha beta isMaximizing currentTurn castleR epTarget g)
  show ?case
    using 1 by (subst minimax.simps) (auto simp: Let_def)
next
  case (2 boardState d col castleR alpha beta maxEval g)
  show ?case by simp
next
  case (3 boardState d col castleR m rest alpha beta maxEval g)
  show ?case
    using 3 by (auto simp: Let_def split: prod.splits)
next
  case (4 boardState d col castleR alpha beta minEval g)
  show ?case by simp
next
  case (5 boardState d col castleR m rest alpha beta minEval g)
  show ?case
    using 5 by (auto simp: Let_def split: prod.splits)
qed

lemma minimax_depth0: "minimax b 0 al be mx ct cr ep g = (Fin (evaluateBoard b), g)"
  by (subst minimax.simps) simp

lemma minimax_no_moves:
  assumes "0 < d"
    and "gatherMoves b (if mx then Black else White)
           (g\<lparr>board := b, castlingRights := cr, enPassantTarget := ep\<rparr>) = []"
  shows "fst (minimax b d al be mx ct cr ep g) =
     (if isSquareAttacked (fst (findKing b (if mx then Black else White)))
           (snd (findKing b (if mx then Black else White))) (if mx then Black else White) b
      then (if mx then Fin (- 99999 + (3 - int d)) else Fin (99999 - (3 - int d)))
      else Fin 0)"
  using assms by (subst minimax.simps) (simp add: Let_def)

section \<open>Facts about the sort, the rounding and the draw\<close>

lemma ELO_CONFIG_depth: "list_all (\<lambda>tier. 0 < depth (snd tier)) ELO_CONFIG"
  by (simp add: ELO_CONFIG_def)

lemma ext_le_refl: "ext_le x x"
  by (cases x) simp_all

lemma ext_le_total: "ext_le x y \<or> ext_le y x"
  by (cases x; cases y) auto

lemma ext_le_trans: "ext_le x y \<Longrightarrow> ext_le y z \<Longrightarrow> ext_le x z"
  by (cases x; cases y; cases z) auto

lemma ext_minus_le: "0 \<le> k \<Longrightarrow> ext_le (ext_minus x k) x"
  by (cases x) simp_all

lemma mset_insertDesc: "mset (insertDesc x ys) = add_mset x (mset ys)"
  by (induction ys) simp_all

lemma mset_sortDesc: "mset (sortDesc xs) = mset xs"
  by (induction xs) (simp_all add: sortDesc_def mset_insertDesc)

lemma set_insertDesc: "set (insertDesc x ys) = insert x (set ys)"
  by (induction ys) auto

lemma sorted_insertDesc:
  "sorted_wrt (\<lambda>a b. ext_le (snd b) (snd a)) ys
   \<Longrightarrow> sorted_wrt (\<lambda>a b. ext_le (snd b) (snd a)) (insertDesc x ys)"
proof (induction ys)
  case Nil
  then show ?case by simp
next
  case (Cons y ys)
  show ?case
  proof (cases "ext_le (snd y) (snd x)")
    case True
    with Cons.prems show ?thesis
      by (auto intro: ext_le_trans)
  next
    case False
    then have "ext_le (snd x) (snd y)" using ext_le_total by blast
    with False Cons show ?thesis
      by (auto simp: set_insertDesc)
  qed
qed

lemma sorted_sortDesc: "sorted_wrt (\<lambda>a b. ext_le (snd b) (snd a)) (sortDesc xs)"
  by (induction xs) (simp_all add: sortDesc_def sorted_insertDesc)

lemma hd_sortDesc_max:
  assumes "x \<in> set xs"
  shows "ext_le (snd x) (snd (hd (sortDesc xs)))"
proof -
  from assms have "x \<in> set (sortDesc xs)"
    using mset_sortDesc[of xs] by (metis set_mset_mset)
  then obtain y ys where ys: "sortDesc xs = y # ys" and "x = y \<or> x \<in> set ys"
    by (cases "sortDesc xs") auto
  with sorted_sortDesc[of xs] show ?thesis
    by (auto simp: ext_le_refl)
qed

text \<open>Rounding to binary64: the scale of a number below \<open>2 ^ 53\<close> and the bounds that follow.\<close>

lemma ulpFrom_spec:
  "e \<le> ulpFrom n e x \<and> ulpFrom n e x \<le> e + int n
   \<and> (ulpFrom n e x < e + int n \<longrightarrow> x < 2 powi (ulpFrom n e x + 53))
   \<and> (e < ulpFrom n e x \<longrightarrow> 2 powi (ulpFrom n e x + 52) \<le> x)"
proof (induction n arbitrary: e)
  case 0
  show ?case by simp
next
  case (Suc n)
  show ?case
  proof (cases "x < 2 powi (e + 53)")
    case True
    then show ?thesis by simp
  next
    case False
    note ih = Suc.IH[of "e + 1"]
    have r: "ulpFrom (Suc n) e x = ulpFrom n (e + 1) x" using False by simp
    have low: "2 powi (ulpFrom n (e + 1) x + 52) \<le> x"
    proof (cases "e + 1 < ulpFrom n (e + 1) x")
      case True
      with ih show ?thesis by blast
    next
      case False
      with ih have "ulpFrom n (e + 1) x = e + 1" by linarith
      with \<open>\<not> x < 2 powi (e + 53)\<close> show ?thesis by (simp add: add.commute)
    qed
    from ih low show ?thesis unfolding r by auto
  qed
qed

lemma ulp_scale:
  assumes "0 \<le> x" and "x < 2 ^ 53"
  shows "\<exists>m. (2::rat) powi ulpExponent x = 1 / 2 ^ m \<and> m \<le> 1074
           \<and> x * 2 ^ m < 2 ^ 53 \<and> (m = 1074 \<or> 2 ^ 52 \<le> x * 2 ^ m)"
proof -
  let ?r = "ulpExponent x"
  have ax: "\<bar>x\<bar> = x" using assms(1) by simp
  note sp = ulpFrom_spec[of "- 1074" 2045 x]
  have rdef: "?r = ulpFrom 2045 (- 1074) x" by (simp add: ulpExponent_def ax)
  have lo: "- 1074 \<le> ?r" using sp rdef by simp
  have r0: "?r \<le> 0"
  proof (rule ccontr)
    assume "\<not> ?r \<le> 0"
    then have pos: "1 \<le> ?r" by simp
    with sp rdef have "2 powi (?r + 52) \<le> x" by simp
    moreover have "(2::rat) powi 53 \<le> 2 powi (?r + 52)"
      using pos by (intro power_int_increasing) simp_all
    ultimately show False using assms(2) by simp
  qed
  from sp rdef r0 have up: "x < 2 powi (?r + 53)" by simp
  from sp rdef have dn: "?r = - 1074 \<or> 2 powi (?r + 52) \<le> x" by auto
  define m where "m = nat (- ?r)"
  have rm: "?r = - int m" using r0 by (simp add: m_def)
  have s: "(2::rat) powi ?r = 1 / 2 ^ m"
    unfolding rm by (simp add: power_int_minus_divide)
  have m1: "m \<le> 1074" using lo by (simp add: m_def)
  have a53: "(2::rat) powi (?r + 53) = 2 ^ 53 / 2 ^ m"
    by (simp add: power_int_add s)
  have a52: "(2::rat) powi (?r + 52) = 2 ^ 52 / 2 ^ m"
    by (simp add: power_int_add s)
  from up a53 have u: "x * 2 ^ m < 2 ^ 53"
    by (simp add: pos_less_divide_eq)
  from dn a52 have d: "m = 1074 \<or> 2 ^ 52 \<le> x * 2 ^ m"
    using rm by (auto simp: pos_divide_le_eq)
  from s m1 u d show ?thesis by blast
qed

lemma roundEven_ge: "of_int n \<le> q \<Longrightarrow> n \<le> roundEven q"
proof -
  assume "of_int n \<le> q"
  then have "n \<le> \<lfloor>q\<rfloor>" by (simp add: le_floor_iff)
  moreover have "\<lfloor>q\<rfloor> \<le> roundEven q" by (simp add: roundEven_def Let_def)
  ultimately show ?thesis by simp
qed

lemma roundEven_lt: "q < of_int K - 1 / 2 \<Longrightarrow> roundEven q < K"
proof -
  assume a: "q < of_int K - 1 / 2"
  then have "q < of_int K" by simp
  then have f: "\<lfloor>q\<rfloor> < K" by (simp add: floor_less_iff)
  show ?thesis
  proof (cases "\<lfloor>q\<rfloor> = K - 1")
    case True
    then have "q - of_int \<lfloor>q\<rfloor> < 1 / 2" using a by simp
    then show ?thesis using True by (simp add: roundEven_def Let_def)
  next
    case False
    with f have "\<lfloor>q\<rfloor> + 1 < K" by simp
    moreover have "roundEven q \<le> \<lfloor>q\<rfloor> + 1" by (simp add: roundEven_def Let_def)
    ultimately show ?thesis by simp
  qed
qed

lemma roundEven_le: "q \<le> of_int n \<Longrightarrow> roundEven q \<le> n"
proof -
  assume a: "q \<le> of_int n"
  show ?thesis
  proof (cases "q = of_int n")
    case True
    then show ?thesis by (simp add: roundEven_def Let_def)
  next
    case False
    with a have "q < of_int n" by simp
    then have "\<lfloor>q\<rfloor> < n" by (simp add: floor_less_iff)
    moreover have "roundEven q \<le> \<lfloor>q\<rfloor> + 1" by (simp add: roundEven_def Let_def)
    ultimately show ?thesis by simp
  qed
qed

lemma binary64_scaled:
  assumes "(2::rat) powi ulpExponent x = 1 / 2 ^ m"
  shows "binary64 x = of_int (roundEven (x * 2 ^ m)) / 2 ^ m"
  by (simp add: binary64_def assms)

lemma binary64_ge_int:
  assumes "0 \<le> x" and "x < 2 ^ 53" and "of_int n \<le> x"
  shows "of_int n \<le> binary64 x"
proof -
  from ulp_scale[OF assms(1,2)] obtain m where s: "(2::rat) powi ulpExponent x = 1 / 2 ^ m"
    by blast
  have "(of_int (n * 2 ^ m) :: rat) \<le> x * 2 ^ m" using assms(3) by simp
  then have "n * 2 ^ m \<le> roundEven (x * 2 ^ m)" by (rule roundEven_ge)
  then have "(of_int (n * 2 ^ m) :: rat) \<le> of_int (roundEven (x * 2 ^ m))"
    by (simp only: of_int_le_iff)
  then have "(of_int n :: rat) * 2 ^ m \<le> of_int (roundEven (x * 2 ^ m))" by simp
  then show ?thesis
    by (simp add: binary64_scaled[OF s] pos_le_divide_eq)
qed

lemma binary64_le_int:
  assumes "0 \<le> x" and "x < 2 ^ 53" and "x \<le> of_int n"
  shows "binary64 x \<le> of_int n"
proof -
  from ulp_scale[OF assms(1,2)] obtain m where s: "(2::rat) powi ulpExponent x = 1 / 2 ^ m"
    by blast
  have "x * 2 ^ m \<le> (of_int (n * 2 ^ m) :: rat)" using assms(3) by simp
  then have "roundEven (x * 2 ^ m) \<le> n * 2 ^ m" by (rule roundEven_le)
  then have "(of_int (roundEven (x * 2 ^ m)) :: rat) \<le> of_int (n * 2 ^ m)"
    by (simp only: of_int_le_iff)
  then have "(of_int (roundEven (x * 2 ^ m)) :: rat) \<le> of_int n * 2 ^ m" by simp
  then show ?thesis
    by (simp add: binary64_scaled[OF s] pos_divide_le_eq)
qed

text \<open>A binary64 number below 1 is at most the largest one below 1.\<close>

lemma binary64_below_one:
  assumes "0 \<le> u" and "u < 1" and "binary64 u = u"
  shows "u \<le> 1 - 1 / 2 ^ 53"
proof -
  from assms have u53: "u < 2 ^ 53" by simp
  from ulp_scale[OF assms(1) u53] obtain m where
    s: "(2::rat) powi ulpExponent u = 1 / 2 ^ m" and um: "u * 2 ^ m < 2 ^ 53"
    by blast
  define N where "N = roundEven (u * 2 ^ m)"
  from assms(3) have uN: "u = of_int N / 2 ^ m"
    by (simp add: binary64_scaled[OF s] N_def)
  show ?thesis
  proof (cases "m \<le> 53")
    case True
    then obtain j where j: "53 = m + j" using le_Suc_ex by blast
    have "u * 2 ^ 53 = of_int N * 2 ^ j"
      by (subst uN) (simp add: j power_add)
    then have int53: "u * 2 ^ 53 = of_int (N * 2 ^ j)" by simp
    from assms(2) have "u * 2 ^ 53 < 2 ^ 53" by simp
    with int53 have "(of_int (N * 2 ^ j) :: rat) < of_int (2 ^ 53)" by simp
    then have "N * 2 ^ j < 2 ^ 53" by (simp only: of_int_less_iff)
    then have "N * 2 ^ j \<le> 2 ^ 53 - 1" by simp
    then have "(of_int (N * 2 ^ j) :: rat) \<le> of_int (2 ^ 53 - 1)" by (simp only: of_int_le_iff)
    with int53 have "u * 2 ^ 53 \<le> 2 ^ 53 - 1" by simp
    then show ?thesis by (simp add: field_simps)
  next
    case False
    then obtain j where j: "m = 54 + j" using le_Suc_ex[of 54 m] by auto
    from um have "u * 2 ^ 54 * 2 ^ j < 2 ^ 53" by (simp add: j power_add mult.assoc)
    moreover have "u * 2 ^ 54 * 1 \<le> u * 2 ^ 54 * 2 ^ j"
      using assms(1) by (intro mult_left_mono) simp_all
    ultimately have "u * 2 ^ 54 < 2 ^ 53" by linarith
    then show ?thesis by simp
  qed
qed

lemma binary64_product_below:
  assumes "0 \<le> u" and "u < 1" and "binary64 u = u" and "0 < k" and "k < 2 ^ 53"
  shows "binary64 (u * of_nat k) < of_nat k"
proof -
  let ?x = "u * of_nat k"
  have x0: "0 \<le> ?x" using assms(1) by simp
  have kr: "(of_nat k :: rat) < 2 ^ 53" using assms(5)
    by (metis of_nat_less_iff of_nat_numeral of_nat_power)
  note b1 = binary64_below_one[OF assms(1-3)]
  have xk: "?x \<le> (1 - 1 / 2 ^ 53) * of_nat k"
    by (rule mult_right_mono[OF b1]) simp
  have xlt: "?x < of_nat k" using assms(2,4) by simp
  with kr have x53: "?x < 2 ^ 53" by simp
  from ulp_scale[OF x0 x53] obtain m where
    s: "(2::rat) powi ulpExponent ?x = 1 / 2 ^ m"
    and d: "m = 1074 \<or> 2 ^ 52 \<le> ?x * 2 ^ m"
    by blast
  let ?K = "int k * 2 ^ m"
  have Kr: "(of_int ?K :: rat) = of_nat k * 2 ^ m" by simp
  have big: "(2::rat) ^ 52 < of_nat k * 2 ^ m"
  proof -
    from d show ?thesis
    proof
      assume m: "m = 1074"
      have "(2::rat) ^ 52 < 1 * 2 ^ 1074" by simp
      also have "\<dots> \<le> of_nat k * 2 ^ 1074"
      proof (rule mult_right_mono)
        show "(1::rat) \<le> of_nat k" using assms(4) by simp
      qed simp
      finally show ?thesis by (simp add: m)
    next
      assume "2 ^ 52 \<le> ?x * 2 ^ m"
      moreover have "?x * 2 ^ m < of_nat k * 2 ^ m"
        by (rule mult_strict_right_mono[OF xlt]) simp
      ultimately show ?thesis by linarith
    qed
  qed
  have "?x * 2 ^ m \<le> (1 - 1 / 2 ^ 53) * of_nat k * 2 ^ m"
    by (rule mult_right_mono[OF xk]) simp
  also have "\<dots> = of_nat k * 2 ^ m - of_nat k * 2 ^ m / 2 ^ 53"
    by (simp add: algebra_simps)
  also have "\<dots> < of_nat k * 2 ^ m - 1 / 2"
    using big by simp
  finally have "?x * 2 ^ m < of_int ?K - 1 / 2" by (simp only: Kr)
  then have "roundEven (?x * 2 ^ m) < ?K" by (rule roundEven_lt)
  then have "(of_int (roundEven (?x * 2 ^ m)) :: rat) < of_int ?K" by (simp only: of_int_less_iff)
  then have "(of_int (roundEven (?x * 2 ^ m)) :: rat) < of_nat k * 2 ^ m" by (simp only: Kr)
  then show ?thesis
    by (simp add: binary64_scaled[OF s] pos_divide_less_eq)
qed

lemma roundEven_of_int: "roundEven (of_int n) = n"
  using roundEven_ge[of n "of_int n"] roundEven_le[of "of_int n" n] by simp

lemma binary64_half: "binary64 (1 / 2) = 1 / 2"
proof -
  have "(0::rat) \<le> 1 / 2" "(1 / 2 :: rat) < 2 ^ 53" by simp_all
  from ulp_scale[OF this] obtain m where
    s: "(2::rat) powi ulpExponent (1 / 2) = 1 / 2 ^ m"
    and u: "(1 / 2 :: rat) * 2 ^ m < 2 ^ 53"
    and d: "m = 1074 \<or> (2::rat) ^ 52 \<le> 1 / 2 * 2 ^ m"
    by blast
  from u have "(2::rat) ^ m < 2 ^ 54" by simp
  then have m54: "m < 54" by (simp only: power_strict_increasing_iff)
  with d have "(2::rat) ^ 52 \<le> 1 / 2 * 2 ^ m" by auto
  then have "(2::rat) ^ 53 \<le> 2 ^ m" by simp
  then have "53 \<le> m" by (simp only: power_increasing_iff)
  with m54 have m: "m = 53" by simp
  have "(1 / 2 :: rat) * 2 ^ 53 = of_int (2 ^ 52)" by simp
  then have "roundEven ((1 / 2 :: rat) * 2 ^ 53) = 2 ^ 52" by (simp only: roundEven_of_int)
  then show ?thesis by (simp add: binary64_scaled[OF s] m)
qed

lemma pick_in_range:
  assumes "0 \<le> u" and "u < 1" and "binary64 u = u" and "xs \<noteq> []" and "length xs < 2 ^ 53"
  shows "nat \<lfloor>binary64 (u * of_nat (length xs))\<rfloor> < length xs
     \<and> pick xs u = Some (xs ! nat \<lfloor>binary64 (u * of_nat (length xs))\<rfloor>)
     \<and> of_nat (nat \<lfloor>binary64 (u * of_nat (length xs))\<rfloor>) \<le> binary64 (u * of_nat (length xs))
     \<and> binary64 (u * of_nat (length xs))
         < of_nat (nat \<lfloor>binary64 (u * of_nat (length xs))\<rfloor>) + 1
     \<and> nat \<lfloor>u * of_nat (length xs)\<rfloor> \<le> nat \<lfloor>binary64 (u * of_nat (length xs))\<rfloor>
     \<and> nat \<lfloor>binary64 (u * of_nat (length xs))\<rfloor> \<le> nat \<lceil>u * of_nat (length xs)\<rceil>"
proof -
  let ?n = "length xs"
  let ?x = "u * of_nat ?n"
  let ?y = "binary64 ?x"
  from assms(4) have n: "0 < ?n" by simp
  have x0: "0 \<le> ?x" using assms(1) by simp
  have nr: "(of_nat ?n :: rat) < 2 ^ 53" using assms(5)
    by (metis of_nat_less_iff of_nat_numeral of_nat_power)
  have "?x < of_nat ?n" using assms(2) n by simp
  with nr have x53: "?x < 2 ^ 53" by simp
  have "(of_int 0 :: rat) \<le> ?x" using x0 by simp
  from binary64_ge_int[OF x0 x53 this] have y0: "0 \<le> ?y" by simp
  then have f0: "0 \<le> \<lfloor>?y\<rfloor>" by simp
  have yn: "?y < of_nat ?n" by (rule binary64_product_below[OF assms(1-3) n assms(5)])
  then have "\<lfloor>?y\<rfloor> < int ?n" by (simp add: floor_less_iff)
  with f0 have lt: "nat \<lfloor>?y\<rfloor> < ?n" by linarith
  have eq: "(of_nat (nat \<lfloor>?y\<rfloor>) :: rat) = of_int \<lfloor>?y\<rfloor>" using f0 by simp
  have lo: "(of_nat (nat \<lfloor>?y\<rfloor>) :: rat) \<le> ?y" unfolding eq by (rule of_int_floor_le)
  have hi: "?y < of_nat (nat \<lfloor>?y\<rfloor>) + 1" unfolding eq by linarith
  have "of_int \<lfloor>?x\<rfloor> \<le> ?x" by (rule of_int_floor_le)
  from binary64_ge_int[OF x0 x53 this] have "\<lfloor>?x\<rfloor> \<le> \<lfloor>?y\<rfloor>" by (simp add: le_floor_iff)
  then have dn: "nat \<lfloor>?x\<rfloor> \<le> nat \<lfloor>?y\<rfloor>" by simp
  have "?x \<le> of_int \<lceil>?x\<rceil>" by (rule le_of_int_ceiling)
  from binary64_le_int[OF x0 x53 this] have "?y < of_int \<lceil>?x\<rceil> + 1" by linarith
  then have "\<lfloor>?y\<rfloor> \<le> \<lceil>?x\<rceil>" by (simp only: floor_le_iff)
  then have up: "nat \<lfloor>?y\<rfloor> \<le> nat \<lceil>?x\<rceil>" by simp
  have pk: "pick xs u = Some (xs ! nat \<lfloor>?y\<rfloor>)"
    using lt f0 by (simp add: pick_def Let_def)
  from lt pk lo hi dn up show ?thesis by (intro conjI)
qed

lemma binary64_at_scale:
  assumes "(2::rat) ^ 52 \<le> x * 2 ^ m" and "x * 2 ^ m < 2 ^ 53" and "m \<le> 1074"
  shows "binary64 x = of_int (roundEven (x * 2 ^ m)) / 2 ^ m"
proof -
  have xpos: "0 < x"
  proof -
    have "(0::rat) < 2 ^ 52" by simp
    with assms(1) have "0 < x * 2 ^ m" by linarith
    then show ?thesis by (simp add: zero_less_mult_iff)
  qed
  have "x * 1 \<le> x * 2 ^ m" using xpos by (intro mult_left_mono) simp_all
  with assms(2) have x53: "x < 2 ^ 53" by simp
  from ulp_scale[OF less_imp_le[OF xpos] x53] obtain n where
    s: "(2::rat) powi ulpExponent x = 1 / 2 ^ n"
    and u: "x * 2 ^ n < 2 ^ 53"
    and d: "n = 1074 \<or> 2 ^ 52 \<le> x * 2 ^ n"
    by blast
  have "n = m"
  proof (rule ccontr)
    assume ne: "n \<noteq> m"
    show False
    proof (cases "m < n")
      case True
      then obtain j where j: "n = Suc m + j" using less_imp_Suc_add by blast
      have "(2::rat) ^ 53 \<le> x * 2 ^ m * 2" using assms(1) by simp
      also have "\<dots> * 1 \<le> x * 2 ^ m * 2 * 2 ^ j"
        using xpos by (intro mult_left_mono) simp_all
      finally have "(2::rat) ^ 53 \<le> x * 2 ^ n" by (simp add: j power_add mult_ac)
      with u show False by simp
    next
      case False
      with ne have "n < m" by simp
      then obtain j where j: "m = Suc n + j" using less_imp_Suc_add by blast
      with assms(3) have "n \<noteq> 1074" by simp
      with d have "(2::rat) ^ 52 \<le> x * 2 ^ n" by simp
      then have "(2::rat) ^ 53 \<le> x * 2 ^ n * 2" by simp
      also have "\<dots> * 1 \<le> x * 2 ^ n * 2 * 2 ^ j"
        using xpos by (intro mult_left_mono) simp_all
      finally have "(2::rat) ^ 53 \<le> x * 2 ^ m" by (simp add: j power_add mult_ac)
      with assms(2) show False by simp
    qed
  qed
  with s show ?thesis by (simp add: binary64_scaled)
qed

text \<open>
  The draw \<open>2573485501354569 / 2 ^ 52\<close> with seven candidates: the exact product is half a
  unit in the last place below 4, the tie goes to the even significand, the binary64 product is
  4, and the index is 4 where the floor of the exact product is 3.
\<close>

lemma pick_rounds_up:
  "\<lfloor>(2573485501354569 / 2 ^ 52 :: rat) * 7\<rfloor> = 3
   \<and> binary64 (2573485501354569 / 2 ^ 52 * 7) = 4
   \<and> pick [a0, a1, a2, a3, a4, a5, a6] (2573485501354569 / 2 ^ 52) = Some a4"
proof -
  let ?x = "(2573485501354569 / 2 ^ 52 :: rat) * 7"
  have fl: "\<lfloor>?x\<rfloor> = 3" by (rule floor_unique) simp_all
  have sc: "?x * 2 ^ 51 = 18014398509481983 / 2" by simp
  have f: "\<lfloor>(18014398509481983 / 2 :: rat)\<rfloor> = 9007199254740991"
    by (rule floor_unique) simp_all
  have re: "roundEven (18014398509481983 / 2) = 9007199254740992"
    by (simp add: roundEven_def Let_def f)
  have a: "(2::rat) ^ 52 \<le> ?x * 2 ^ 51" by simp
  have b: "?x * 2 ^ 51 < 2 ^ 53" by simp
  from binary64_at_scale[OF a b] have "binary64 ?x = of_int (roundEven (?x * 2 ^ 51)) / 2 ^ 51"
    by simp
  also have "\<dots> = 4" by (simp only: sc re) simp
  finally have b64: "binary64 ?x = 4" .
  have "pick [a0, a1, a2, a3, a4, a5, a6] (2573485501354569 / 2 ^ 52) = Some a4"
    using b64 by (simp add: pick_def Let_def)
  with fl b64 show ?thesis by blast
qed

text \<open>
  The board on which the policy scores a move is the board that the executor produces for it
  when the mover is the side to move and a pawn on the last rank becomes a queen.
\<close>

lemma simBoard_is_executor_board:
  assumes "cell (board g) (fst (from_sq m)) (snd (from_sq m)) = Some p" and "fst p = turn g"
  shows "board (commitMove m (if reachesLastRank p m then Some Queen else None) p g)
       = simBoard m (board g)"
proof (cases "reachesLastRank p m")
  case True
  with assms show ?thesis
    by (simp add: commitMove_def simBoard_def reachesLastRank_def Let_def)
next
  case False
  with assms show ?thesis
    by (auto simp: commitMove_def simBoard_def reachesLastRank_def Let_def)
qed

lemma scoreMoves_eq:
  "scoreMoves cfg ms g =
     (map (\<lambda>m. (m, fst (minimax (simBoard m (board g)) (depth cfg - 1) NegInf PosInf False White
                          (castlingRights g) (simEP m) g))) ms, g)"
proof (induction ms)
  case Nil
  show ?case by simp
next
  case (Cons m ms)
  obtain s g' where mm: "minimax (simBoard m (board g)) (depth cfg - 1) NegInf PosInf False White
                          (castlingRights g) (simEP m) g = (s, g')"
    by (cases "minimax (simBoard m (board g)) (depth cfg - 1) NegInf PosInf False White
                          (castlingRights g) (simEP m) g")
  from minimax_frame(1)[of "simBoard m (board g)" "depth cfg - 1" NegInf PosInf False White
        "castlingRights g" "simEP m" g] mm
  have "g' = g" by simp
  with mm Cons show ?case by (simp add: Let_def)
qed

lemma length_sortDesc: "length (sortDesc xs) = length xs"
  using mset_sortDesc[of xs] by (metis size_mset)

lemma rankedMoves_length: "length (rankedMoves cfg g) = length (getLegalMoves Black g)"
  by (simp add: rankedMoves_def length_sortDesc)

lemma rankedMoves_moves:
  assumes "x \<in> set (rankedMoves cfg g)"
  shows "fst x \<in> set (getLegalMoves Black g) \<and> snd x = moveScore cfg g (fst x)"
proof -
  from assms have "x \<in> set (map (\<lambda>m. (m, moveScore cfg g m)) (getLegalMoves Black g))"
    unfolding rankedMoves_def using mset_sortDesc by (metis set_mset_mset)
  then show ?thesis by auto
qed

lemma candidates_single:
  assumes "length (getLegalMoves Black g) = 1"
  shows "candidates cfg True g = candidates cfg False g"
proof -
  from assms obtain x where x: "rankedMoves cfg g = [x]"
    using rankedMoves_length[of cfg g] by (cases "rankedMoves cfg g") auto
  then show ?thesis
    by (simp add: candidates_def ext_minus_le)
qed

lemma candidates_nonempty:
  assumes "getLegalMoves Black g \<noteq> []"
  shows "candidates cfg bl g \<noteq> []"
proof (cases bl)
  case True
  from assms have "0 < length (rankedMoves cfg g)" by (simp add: rankedMoves_length)
  then have "length (rankedMoves cfg g) div 2 < length (rankedMoves cfg g)" by simp
  with True show ?thesis by (simp add: candidates_def)
next
  case False
  from assms obtain x xs where x: "rankedMoves cfg g = x # xs"
    using rankedMoves_length[of cfg g] by (cases "rankedMoves cfg g") auto
  with False show ?thesis
    by (auto simp: candidates_def ext_minus_le filter_empty_conv)
qed

lemma candidates_length: "length (candidates cfg bl g) \<le> length (getLegalMoves Black g)"
proof -
  have "length (candidates cfg bl g) \<le> length (rankedMoves cfg g)"
    by (cases bl) (simp_all add: candidates_def)
  then show ?thesis by (simp only: rankedMoves_length)
qed

lemma candidates_subset: "set (candidates cfg bl g) \<subseteq> set (rankedMoves cfg g)"
  by (auto simp: candidates_def dest: in_set_dropD)

lemma chooseMove_unfold:
  assumes "getLegalMoves Black g \<noteq> []"
  shows "chooseMove cfg u1 u2 g =
     (if u1 < blunderRate cfg \<and> length (rankedMoves cfg g) > 1
      then (map_option fst (pick (candidates cfg True g) u2), g)
      else (map_option fst (pick (candidates cfg False g) u2), g))"
  using assms
  by (simp add: chooseMove_def scoreMoves_eq rankedMoves_def moveScore_def candidates_def Let_def)

lemma chooseMove_eq:
  assumes "getLegalMoves Black g \<noteq> []"
  shows "chooseMove cfg u1 u2 g =
     (map_option fst (pick (candidates cfg (u1 < blunderRate cfg) g) u2), g)"
proof (cases "u1 < blunderRate cfg \<and> \<not> 1 < length (getLegalMoves Black g)")
  case True
  with assms have "length (getLegalMoves Black g) = 1"
    by (cases "getLegalMoves Black g") auto
  from candidates_single[OF this, of cfg] True show ?thesis
    by (simp add: chooseMove_unfold[OF assms] rankedMoves_length)
next
  case False
  then show ?thesis
    by (auto simp: chooseMove_unfold[OF assms] rankedMoves_length)
qed

section \<open>Facts about the serialization\<close>

lemma showNat_digit: "n < 10 \<Longrightarrow> showNat n = [digitChar n]"
  by (subst showNat.simps) simp

lemma pieceLetter_spec:
  "(if fst p = White then toUpperCase (pieceMap (snd p)) else pieceMap (snd p)) = spec_pieceLetter p"
proof (cases p)
  case (Pair col t)
  show ?thesis
    unfolding Pair by (cases col; cases t; hypsubst; code_simp)
qed

lemma spec_rank_run:
  "spec_rank (replicate k None @ Some p # ys)
     = (if k > 0 then [digitChar k] else []) @ spec_pieceLetter p # spec_rank ys"
proof (cases k)
  case 0
  then show ?thesis by simp
next
  case (Suc j)
  have tw: "takeWhile (\<lambda>x. x = None) (replicate j None @ Some p # ys) = replicate j None"
    by (induction j) simp_all
  have dw: "dropWhile (\<lambda>x. x = None) (replicate j None @ Some p # ys) = Some p # ys"
    by (induction j) simp_all
  show ?thesis using Suc by (simp add: tw dw)
qed

lemma spec_rank_empty: "spec_rank (replicate k None) = (if k > 0 then [digitChar k] else [])"
proof (cases k)
  case 0
  then show ?thesis by simp
next
  case (Suc j)
  have tw: "takeWhile (\<lambda>x. x = None) (replicate j (None :: piece option)) = replicate j None"
    by (induction j) simp_all
  have dw: "dropWhile (\<lambda>x. x = None) (replicate j (None :: piece option)) = []"
    by (induction j) simp_all
  show ?thesis using Suc by (simp add: tw dw)
qed

lemma fenCells_spec:
  "k + length xs < 10 \<Longrightarrow>
     (let acc = foldl fenCell (fen, k) xs
      in if snd acc > 0 then fst acc @ showNat (snd acc) else fst acc)
     = fen @ spec_rank (replicate k None @ xs)"
proof (induction xs arbitrary: fen k)
  case Nil
  then show ?case by (simp add: spec_rank_empty showNat_digit)
next
  case (Cons x xs)
  show ?case
  proof (cases x)
    case None
    from Cons.prems have "Suc k + length xs < 10" by simp
    from Cons.IH[OF this, of fen] None show ?thesis
      by (simp add: fenCell_def replicate_app_Cons_same)
  next
    case (Some p)
    from Cons.prems have "0 + length xs < 10" by simp
    from Cons.IH[OF this] Cons.prems Some show ?thesis
      by (simp add: fenCell_def spec_rank_run showNat_digit pieceLetter_spec)
  qed
qed

lemma upto_0_7: "[0..7::int] = [0, 1, 2, 3, 4, 5, 6, 7]"
  by code_simp

lemma fenRow_spec:
  "fenRow b fen r = fen @ spec_rank (map (\<lambda>c. cell b r c) [0..7]) @ (if r < 7 then ''/'' else [])"
proof -
  have "foldl (\<lambda>acc c. fenCell acc (cell b r c)) (fen, 0) [0..7]
      = foldl fenCell (fen, 0) (map (\<lambda>c. cell b r c) [0..7])"
    by (simp add: foldl_map)
  moreover have "0 + length (map (\<lambda>c. cell b r c) [0..7]) < 10"
    by (simp add: upto_0_7)
  ultimately show ?thesis
    using fenCells_spec[of 0 "map (\<lambda>c. cell b r c) [0..7]" fen]
    by (simp add: fenRow_def Let_def)
qed

lemma placement_spec: "foldl (fenRow b) [] [0..7] = spec_placement b"
  unfolding spec_placement_def
  by (subst (1 3) upto_0_7) (simp add: fenRow_spec)

lemma castling_spec: "castlingToken cr = spec_castling cr"
  by (simp add: castlingToken_def spec_castling_def Let_def)

lemma enPassant_spec:
  assumes "isValidSquare (fst sq) (snd sq)"
  shows "[char_of (97 + snd sq)] @ showInt (8 - fst sq) = spec_enPassant (Some sq)"
proof -
  from assms have "0 \<le> 8 - fst sq" "nat (8 - fst sq) < 10"
    by (auto simp: isValidSquare_def)
  then show ?thesis
    by (simp add: spec_enPassant_def showInt_def showNat_digit)
qed

lemma readDecimal_snoc:
  "spec_readDecimal (s @ [ch]) = 10 * spec_readDecimal s + (of_char ch - 48)"
  by (simp add: spec_readDecimal_def)

lemma readDecimal_showNat: "spec_readDecimal (showNat n) = n"
proof (induction n rule: showNat.induct)
  case (1 n)
  show ?case
  proof (cases "n < 10")
    case True
    then have "of_char (digitChar n) = 48 + n" by (simp add: digitChar_def)
    with True show ?thesis by (simp add: showNat_digit spec_readDecimal_def)
  next
    case False
    have d: "of_char (digitChar (n mod 10)) = 48 + n mod 10"
      by (simp add: digitChar_def) 
    from False have "showNat n = showNat (n div 10) @ [digitChar (n mod 10)]"
      by (subst showNat.simps) simp
    with 1[OF False] d show ?thesis by (simp add: readDecimal_snoc)
  qed
qed

section \<open>The claims\<close>

text \<open>
  C1 (the code differs). The claim: after any move of the legal-move set of a side is carried
  out, the attack detector finds the mover's king unattacked. The legality filter tests the king
  on a scratch board on which the castling rook is not relocated, and a castling candidate needs
  only the right and empty squares, not a rook of the mover on the corner; the right is kept
  when the rook is captured on its corner. In the game \<open>kingWalk\<close>, legal move by move, the black
  king captures the rook on a1. White's queen-side castling is then in the legal-move set, and
  \<open>makeMove\<close> puts the white king on c1 and moves the piece on a1, the black king, to d1: the
  white king stands attacked after its own move.
\<close>

theorem castle_queenside_beside_enemy_king:
  "playMoves kingWalk (initGame Pvp) = Some cornerKingPosition
   \<and> addMove 7 4 7 2 (Some CastleQS) \<in> set (getLegalMoves White cornerKingPosition)
   \<and> (case makeMove (addMove 7 4 7 2 (Some CastleQS)) None cornerKingPosition of
        Inl e \<Rightarrow> False
      | Inr g' \<Rightarrow>
          findKing (board g') White = (7, 2)
          \<and> cell (board g') 7 3 = Some (Black, King)
          \<and> isSquareAttacked 7 2 White (board g'))"
proof -
  have reach: "playMoves kingWalk (initGame Pvp) = Some cornerKingPosition"
    by code_simp
  have legal: "addMove 7 4 7 2 (Some CastleQS) \<in> set (getLegalMoves White cornerKingPosition)"
    by code_simp
  have after: "case makeMove (addMove 7 4 7 2 (Some CastleQS)) None cornerKingPosition of
        Inl e \<Rightarrow> False
      | Inr g' \<Rightarrow>
          findKing (board g') White = (7, 2)
          \<and> cell (board g') 7 3 = Some (Black, King)
          \<and> isSquareAttacked 7 2 White (board g')"
    by code_simp
  from reach legal after show ?thesis by blast
qed

text \<open>
  C2 (the code differs). The claim: the full-move counter increments exactly when the move just
  made was black's and is unchanged after a white move. In the script the counter increments on
  white's move: from the initial position, where the counter is 1, white's double push e2-e4
  leaves it at 2, and black's reply e7-e5 leaves it at 2.
\<close>

theorem makeMove_moveCount_after_white_move:
  "turn (initGame Pvp) = White \<and> moveCount (initGame Pvp) = 1
   \<and> (case makeMove (addMove 6 4 4 4 (Some DoublePush)) None (initGame Pvp) of
        Inl e \<Rightarrow> False
      | Inr g' \<Rightarrow> turn g' = Black \<and> moveCount g' = 2
          \<and> (case makeMove (addMove 1 4 3 4 (Some DoublePush)) None g' of
                Inl e \<Rightarrow> False
              | Inr g'' \<Rightarrow> turn g'' = White \<and> moveCount g'' = 2))"
  by code_simp

text \<open>
  C3. A castling move in the legal-move set of a side is a move of the king by two columns, and
  the king's origin square and the square it passes over (origin column plus 1 on the king's
  side, minus 1 on the queen's side) are not attacked on the board before the move, and the
  landing square is not attacked on the scratch board after the relocation. So a castling
  candidate whose origin or transit square is attacked is not in the legal-move set.
\<close>

theorem castle_requires_safe_origin_and_transit:
  assumes "m \<in> set (getLegalMoves col g)"
    and "special m = Some CastleKS \<or> special m = Some CastleQS"
  shows "hasType (cell (board g) (fst (from_sq m)) (snd (from_sq m))) King
     \<and> to_sq m = (fst (from_sq m),
                  snd (from_sq m) + (if special m = Some CastleKS then 2 else - 2))
     \<and> \<not> isSquareAttacked (fst (from_sq m)) (snd (from_sq m)) col (board g)
     \<and> \<not> isSquareAttacked (fst (from_sq m))
            (snd (from_sq m) + (if special m = Some CastleKS then 1 else - 1)) col (board g)
     \<and> \<not> isSquareAttacked (fst (to_sq m)) (snd (to_sq m)) col (tempBoard m g)"
proof -
  from assms(1) obtain r c p where
    p: "cell (board g) r c = Some p" "fst p = col"
    and gen: "m \<in> set (getPseudoLegalMoves r c p g)"
    and safe: "isMoveSafe m col g"
    unfolding getLegalMoves_gather gatherMoves_iff by blast
  from gen have fr: "from_sq m = (r, c)" by (rule getPseudoLegalMoves_from)
  from getPseudoLegalMoves_castle[OF gen assms(2)]
  have king: "snd p = King" and km: "m \<in> set (kingMoves r c (fst p) g)" by simp_all
  have ht: "hasType (cell (board g) (fst (from_sq m)) (snd (from_sq m))) King"
    using p king fr by (simp add: hasType_def)
  from kingMoves_shape[OF km] assms(2)
  have to: "to_sq m = (fst (from_sq m),
                  snd (from_sq m) + (if special m = Some CastleKS then 2 else - 2))"
    using fr by auto
  from safe ht assms(2)
  have "\<not> isSquareAttacked (fst (from_sq m)) (snd (from_sq m)) col (board g)
     \<and> \<not> isSquareAttacked (fst (from_sq m))
            (snd (from_sq m) + (if special m = Some CastleKS then 1 else - 1)) col (board g)
     \<and> \<not> isSquareAttacked (fst (to_sq m)) (snd (to_sq m)) col (tempBoard m g)"
    by (auto simp: isMoveSafe_def Let_def split: if_splits)
  with ht to show ?thesis by simp
qed

theorem castle_requires_safe_origin_and_transit_witness:
  "addMove 7 4 7 6 (Some CastleKS) \<in> set (getLegalMoves White castlePosition)
   \<and> \<not> isSquareAttacked 7 4 White (board castlePosition)
   \<and> \<not> isSquareAttacked 7 5 White (board castlePosition)
   \<and> \<not> isSquareAttacked 7 6 White
          (tempBoard (addMove 7 4 7 6 (Some CastleKS)) castlePosition)"
proof -
  have mem: "addMove 7 4 7 6 (Some CastleKS) \<in> set (getLegalMoves White castlePosition)"
    by code_simp
  from castle_requires_safe_origin_and_transit[OF mem] mem
  show ?thesis by (simp add: addMove_def)
qed

text \<open>
  C4. When the origin square of a move holds a pawn, the move ends on row 0 or row 7, no
  promotion choice is supplied and the mover is not the computer's side (black in solo mode),
  \<open>makeMove\<close> returns the game with the move stored in \<open>pendingPromotion\<close> and every other
  variable (board, castling rights, turn, clocks, captured pieces, en-passant target) as it was;
  \<open>handlePromotionChoice\<close> on that game commits the held move with the chosen piece and clears
  the pending move.
\<close>

theorem promotion_is_held_until_resolved:
  assumes "cell (board g) (fst (from_sq m)) (snd (from_sq m)) = Some fromPiece"
    and "snd fromPiece = Pawn"
    and "fst (to_sq m) = 0 \<or> fst (to_sq m) = 7"
    and "\<not> (gameMode g = Solo \<and> turn g = Black)"
  shows "makeMove m None g = Inr (g\<lparr>pendingPromotion := Some m\<rparr>)
     \<and> handlePromotionChoice t (g\<lparr>pendingPromotion := Some m\<rparr>)
         = Inr ((commitMove m (Some t) fromPiece g)\<lparr>pendingPromotion := None\<rparr>)"
  using assms
  by (auto simp: makeMove_def handlePromotionChoice_def reachesLastRank_def commitMove_pending)


theorem promotion_is_held_until_resolved_witness:
  "addMove 1 0 0 0 None \<in> set (getLegalMoves White promotionPosition)
   \<and> makeMove (addMove 1 0 0 0 None) None promotionPosition
       = Inr (promotionPosition\<lparr>pendingPromotion := Some (addMove 1 0 0 0 None)\<rparr>)
   \<and> handlePromotionChoice Queen
         (promotionPosition\<lparr>pendingPromotion := Some (addMove 1 0 0 0 None)\<rparr>)
       = Inr ((commitMove (addMove 1 0 0 0 None) (Some Queen) (White, Pawn) promotionPosition)
               \<lparr>pendingPromotion := None\<rparr>)"
proof -
  have mem: "addMove 1 0 0 0 None \<in> set (getLegalMoves White promotionPosition)"
    by code_simp
  have h1: "cell (board promotionPosition) (fst (from_sq (addMove 1 0 0 0 None)))
              (snd (from_sq (addMove 1 0 0 0 None))) = Some (White, Pawn)"
    by code_simp
  have h2: "snd (White, Pawn) = Pawn" by simp
  have h3: "fst (to_sq (addMove 1 0 0 0 None)) = 0 \<or> fst (to_sq (addMove 1 0 0 0 None)) = 7"
    by (simp add: addMove_def)
  have h4: "\<not> (gameMode promotionPosition = Solo \<and> turn promotionPosition = Black)"
    by (simp add: promotionPosition_def initGame_def)
  from promotion_is_held_until_resolved[OF h1 h2 h3 h4, of Queen] mem
  show ?thesis by simp
qed

text \<open>
  C5 (amended). The claim: resolving a promotion while none is pending is reported to the caller
  as an error. The script has an \<^verbatim>\<open>if (pendingPromotion)\<close> without an \<^verbatim>\<open>else\<close>: with no
  promotion pending \<open>handlePromotionChoice\<close> returns normally and leaves the game as it was.
\<close>

theorem handlePromotionChoice_none_pending:
  "pendingPromotion g = None \<Longrightarrow> handlePromotionChoice t g = Inr g"
  by (simp add: handlePromotionChoice_def)


theorem handlePromotionChoice_none_pending_witness:
  "pendingPromotion (initGame Pvp) = None
   \<and> handlePromotionChoice Queen (initGame Pvp) = Inr (initGame Pvp)"
  using handlePromotionChoice_none_pending[of "initGame Pvp" Queen]
  by (simp add: initGame_def)


text \<open>
  C5 as stated fails on the initial game: no promotion is pending, and the call returns the
  unchanged game instead of an error.
\<close>

theorem handlePromotionChoice_silent_counterexample:
  "pendingPromotion (initGame Pvp) = None
   \<and> \<not> isl (handlePromotionChoice Queen (initGame Pvp))
   \<and> handlePromotionChoice Queen (initGame Pvp) = Inr (initGame Pvp)"
  by (simp add: handlePromotionChoice_def initGame_def)

text \<open>
  C6. At depth 0 \<open>minimax\<close> returns the evaluator's score of the board. At a depth above 0,
  when the side to act has no legal move in the searched position: if its king is attacked the
  score is \<open>-99999 + (3 - depth)\<close> for the maximizing side and \<open>99999 - (3 - depth)\<close> for the
  minimizing side, of magnitude at least 99997, and at a greater remaining depth (a faster mate)
  the score is strictly lower for the mated maximizing side and strictly higher for the mated
  minimizing side; if its king is not attacked the score is 0.
\<close>

theorem minimax_leaf_and_terminal:
  "fst (minimax b 0 al be mx ct cr ep g) = Fin (evaluateBoard b)
   \<and> (0 < d \<and> d < d'
        \<and> gatherMoves b (if mx then Black else White)
             (g\<lparr>board := b, castlingRights := cr, enPassantTarget := ep\<rparr>) = []
      \<longrightarrow> (if isSquareAttacked (fst (findKing b (if mx then Black else White)))
                (snd (findKing b (if mx then Black else White))) (if mx then Black else White) b
           then (\<exists>x y. fst (minimax b d al be mx ct cr ep g) = Fin x
                   \<and> fst (minimax b d' al be mx ct cr ep g) = Fin y
                   \<and> x = (if mx then - 99999 + (3 - int d) else 99999 - (3 - int d))
                   \<and> (if mx then y < x \<and> x \<le> - 99997 else x < y \<and> 99997 \<le> x))
           else fst (minimax b d al be mx ct cr ep g) = Fin 0))"
  by (auto simp: minimax_depth0 minimax_no_moves)

theorem minimax_leaf_and_terminal_witness:
  "fst (minimax mateBoard 1 NegInf PosInf True Black noRights None (initGame Solo)) = Fin (- 99997)
   \<and> fst (minimax mateBoard 2 NegInf PosInf True Black noRights None (initGame Solo)) = Fin (- 99998)
   \<and> fst (minimax stalemateBoard 1 NegInf PosInf True Black noRights None (initGame Solo)) = Fin 0"
proof -
  have m: "gatherMoves mateBoard (if True then Black else White)
             ((initGame Solo)\<lparr>board := mateBoard, castlingRights := noRights,
                               enPassantTarget := None\<rparr>) = []"
    by code_simp
  have a: "isSquareAttacked (fst (findKing mateBoard (if True then Black else White)))
             (snd (findKing mateBoard (if True then Black else White)))
             (if True then Black else White) mateBoard"
    by code_simp
  have s: "gatherMoves stalemateBoard (if True then Black else White)
             ((initGame Solo)\<lparr>board := stalemateBoard, castlingRights := noRights,
                               enPassantTarget := None\<rparr>) = []"
    by code_simp
  have n: "\<not> isSquareAttacked (fst (findKing stalemateBoard (if True then Black else White)))
             (snd (findKing stalemateBoard (if True then Black else White)))
             (if True then Black else White) stalemateBoard"
    by code_simp
  from minimax_leaf_and_terminal[of mateBoard NegInf PosInf True Black noRights None
        "initGame Solo" 1 2] m a
  have "fst (minimax mateBoard 1 NegInf PosInf True Black noRights None (initGame Solo)) = Fin (- 99997)"
    by auto
  moreover from minimax_leaf_and_terminal[of mateBoard NegInf PosInf True Black noRights None
        "initGame Solo" 2 3] m a
  have "fst (minimax mateBoard 2 NegInf PosInf True Black noRights None (initGame Solo)) = Fin (- 99998)"
    by auto
  moreover from minimax_leaf_and_terminal[of stalemateBoard NegInf PosInf True Black noRights None
        "initGame Solo" 1 2] s n
  have "fst (minimax stalemateBoard 1 NegInf PosInf True Black noRights None (initGame Solo)) = Fin 0"
    by auto
  ultimately show ?thesis by simp
qed

text \<open>
  C7. The evaluator's score is the sum over the 64 squares of the material value plus the
  piece-square bonus of the piece on the square, the row mirrored for white, added for black and
  subtracted for white.
\<close>

theorem evaluateBoard_is_material_plus_table: "evaluateBoard b = spec_score b"
proof -
  have "evaluateBoard b = sum_list (map (\<lambda>sq. spec_squareScore b (fst sq) (snd sq)) allSquares)"
    by (simp add: evaluateBoard_def foldl_evalSquare)
  also have "\<dots> = sum_list (map (\<lambda>r. sum_list (map (\<lambda>c. spec_squareScore b r c) [0..7])) [0..7])"
    by (simp add: allSquares_def map_concat sum_list_concat_rows comp_def)
  also have "\<dots> = spec_score b"
    by (simp only: sum_list_upto spec_score_def)
  finally show ?thesis .
qed

text \<open>
  C10. A call of \<open>minimax\<close> returns the game it was given: the globals \<open>board\<close>,
  \<open>castlingRights\<close> and \<open>enPassantTarget\<close> hold the same values after the call as before.
\<close>

theorem minimax_restores_globals:
  "snd (minimax b d al be mx ct cr ep g) = g
   \<and> board (snd (minimax b d al be mx ct cr ep g)) = board g
   \<and> castlingRights (snd (minimax b d al be mx ct cr ep g)) = castlingRights g
   \<and> enPassantTarget (snd (minimax b d al be mx ct cr ep g)) = enPassantTarget g"
  by (simp add: minimax_frame)

text \<open>
  C8. With at least one legal move for black, a tier of depth at least 1 and a second draw that
  is a binary64 number at least 0 and below 1: every legal move is scored by the search at the
  tier's depth minus 1 and the scored moves are put into descending order of score; for a first
  draw below the blunder rate the candidates are the lower half of that order, otherwise they
  are the moves whose score is within 10 of the best score; the second draw \<open>u2\<close> selects the
  candidate of index \<open>i\<close>, the floor of the binary64 product of \<open>u2\<close> and the number \<open>k\<close> of
  candidates, which is below \<open>k\<close> and is the floor of the exact product \<open>u2 * k\<close> or, when the
  product rounds up to an integer, one more. A move is always chosen, and it is a legal move.
\<close>

theorem fallbackAIMove_choice:
  assumes "getLegalMoves Black g \<noteq> []" and "0 \<le> u2" and "u2 < 1" and "binary64 u2 = u2"
    and "0 < depth cfg"
  shows "\<exists>m i cands.
       fst (chooseMove cfg u1 u2 g) = Some m
     \<and> m \<in> set (getLegalMoves Black g)
     \<and> fallbackAIMove cfg u1 u2 g = makeMove m None g
     \<and> cands = candidates cfg (u1 < blunderRate cfg) g
     \<and> i < length cands
     \<and> of_nat i \<le> binary64 (u2 * of_nat (length cands))
     \<and> binary64 (u2 * of_nat (length cands)) < of_nat i + 1
     \<and> nat \<lfloor>u2 * of_nat (length cands)\<rfloor> \<le> i
     \<and> i \<le> nat \<lceil>u2 * of_nat (length cands)\<rceil>
     \<and> (m, moveScore cfg g m) = cands ! i
     \<and> mset (rankedMoves cfg g)
         = mset (map (\<lambda>m. (m, moveScore cfg g m)) (getLegalMoves Black g))
     \<and> sorted_wrt (\<lambda>a b. ext_le (snd b) (snd a)) (rankedMoves cfg g)
     \<and> (\<forall>x \<in> set (rankedMoves cfg g). ext_le (snd x) (snd (hd (rankedMoves cfg g))))"
proof -
  let ?cands = "candidates cfg (u1 < blunderRate cfg) g"
  let ?i = "nat \<lfloor>binary64 (u2 * of_nat (length ?cands))\<rfloor>"
  have ne: "?cands \<noteq> []" by (rule candidates_nonempty[OF assms(1)])
  have "length ?cands \<le> 4096"
    using candidates_length[of cfg "u1 < blunderRate cfg" g] length_getLegalMoves[of Black g]
    by (rule le_trans)
  then have small: "length ?cands < 2 ^ 53" by simp
  note pr = pick_in_range[OF assms(2,3,4) ne small]
  have i: "?i < length ?cands" by (rule pr[THEN conjunct1])
  have pk: "pick ?cands u2 = Some (?cands ! ?i)" by (rule pr[THEN conjunct2, THEN conjunct1])
  have lo: "of_nat ?i \<le> binary64 (u2 * of_nat (length ?cands))"
    by (rule pr[THEN conjunct2, THEN conjunct2, THEN conjunct1])
  have hi: "binary64 (u2 * of_nat (length ?cands)) < of_nat ?i + 1"
    by (rule pr[THEN conjunct2, THEN conjunct2, THEN conjunct2, THEN conjunct1])
  have dn: "nat \<lfloor>u2 * of_nat (length ?cands)\<rfloor> \<le> ?i"
    by (rule pr[THEN conjunct2, THEN conjunct2, THEN conjunct2, THEN conjunct2, THEN conjunct1])
  have up: "?i \<le> nat \<lceil>u2 * of_nat (length ?cands)\<rceil>"
    by (rule pr[THEN conjunct2, THEN conjunct2, THEN conjunct2, THEN conjunct2, THEN conjunct2])
  from i have "?cands ! ?i \<in> set (rankedMoves cfg g)"
    using candidates_subset nth_mem by blast
  from rankedMoves_moves[OF this]
  have mem: "fst (?cands ! ?i) \<in> set (getLegalMoves Black g)"
    and sc: "(fst (?cands ! ?i), moveScore cfg g (fst (?cands ! ?i))) = ?cands ! ?i"
    by (simp_all add: prod_eq_iff)
  have ch: "chooseMove cfg u1 u2 g = (Some (fst (?cands ! ?i)), g)"
    by (simp add: chooseMove_eq[OF assms(1)] pk)
  then have fb: "fallbackAIMove cfg u1 u2 g = makeMove (fst (?cands ! ?i)) None g"
    using assms(1) by (simp add: fallbackAIMove_def)
  have ms: "mset (rankedMoves cfg g)
         = mset (map (\<lambda>m. (m, moveScore cfg g m)) (getLegalMoves Black g))"
    by (simp add: rankedMoves_def mset_sortDesc)
  have so: "sorted_wrt (\<lambda>a b. ext_le (snd b) (snd a)) (rankedMoves cfg g)"
    by (simp add: rankedMoves_def sorted_sortDesc)
  have mx: "\<forall>x \<in> set (rankedMoves cfg g). ext_le (snd x) (snd (hd (rankedMoves cfg g)))"
  proof
    fix x assume "x \<in> set (rankedMoves cfg g)"
    then have "x \<in> set (map (\<lambda>m. (m, moveScore cfg g m)) (getLegalMoves Black g))"
      using ms by (metis set_mset_mset)
    from hd_sortDesc_max[OF this] show "ext_le (snd x) (snd (hd (rankedMoves cfg g)))"
      by (simp add: rankedMoves_def)
  qed
  from ch have ch': "fst (chooseMove cfg u1 u2 g) = Some (fst (?cands ! ?i))" by simp
  show ?thesis
    by (intro exI[of _ "fst (?cands ! ?i)"] exI[of _ ?i] exI[of _ ?cands] conjI
        ch' mem fb refl i lo hi dn up sc ms so mx)
qed

theorem fallbackAIMove_choice_witness:
  "getLegalMoves Black kingsPosition \<noteq> []
   \<and> binary64 (1 / 2) = 1 / 2
   \<and> (\<exists>m. fst (chooseMove \<lparr>depth = 1, blunderRate = 1 / 2\<rparr> (1 / 4) (1 / 2) kingsPosition)
             = Some m
          \<and> m \<in> set (getLegalMoves Black kingsPosition))"
proof -
  have h: "getLegalMoves Black kingsPosition \<noteq> []"
    by code_simp
  have u0: "(0::rat) \<le> 1 / 2" and u1: "(1 / 2 :: rat) < 1" by simp_all
  have d: "0 < depth \<lparr>depth = 1, blunderRate = 1 / 2\<rparr>" by simp
  from fallbackAIMove_choice[OF h u0 u1 binary64_half d, of "1 / 4"] h binary64_half
  show ?thesis by blast
qed

text \<open>
  C9. For a game whose en-passant target, when there is one, is a square of the grid,
  \<open>boardToFEN\<close> is the six fields joined by single spaces: the eight ranks from row 0 to row 7
  joined by \<open>/\<close>, each rank run-length encoded with the piece letters (uppercase for white);
  \<open>w\<close> or \<open>b\<close>; the held rights as a subsequence of \<open>KQkq\<close>, or \<open>-\<close>; the en-passant square
  as file letter and rank digit, or \<open>-\<close>; the half-move clock in decimal; the full-move number
  in decimal, which is at least 1.
\<close>

theorem boardToFEN_format:
  assumes "case enPassantTarget g of None \<Rightarrow> True | Some sq \<Rightarrow> isValidSquare (fst sq) (snd sq)"
  shows "boardToFEN g = spec_fen g
     \<and> spec_readDecimal (showNat (halfMoveClock g)) = halfMoveClock g
     \<and> spec_readDecimal (showNat (max 1 (moveCount g))) = max 1 (moveCount g)
     \<and> 1 \<le> spec_readDecimal (showNat (max 1 (moveCount g)))"
proof -
  have "boardToFEN g = spec_fen g"
  proof (cases "enPassantTarget g")
    case None
    then show ?thesis
      by (simp add: boardToFEN_def spec_fen_def Let_def placement_spec castling_spec
          spec_enPassant_def)
  next
    case (Some sq)
    with assms have "isValidSquare (fst sq) (snd sq)" by simp
    from enPassant_spec[OF this] Some show ?thesis
      by (simp add: boardToFEN_def spec_fen_def Let_def placement_spec castling_spec)
  qed
  then show ?thesis by (simp add: readDecimal_showNat)
qed

theorem boardToFEN_format_witness:
  "boardToFEN afterE4 = ''rnbqkbnr/pppppppp/8/8/4P3/8/PPPP1PPP/RNBQKBNR b KQkq e3 0 2''"
proof -
  have h: "case enPassantTarget afterE4 of None \<Rightarrow> True
           | Some sq \<Rightarrow> isValidSquare (fst sq) (snd sq)"
    by code_simp
  from boardToFEN_format[OF h] have "boardToFEN afterE4 = spec_fen afterE4" by simp
  also have "spec_fen afterE4 = ''rnbqkbnr/pppppppp/8/8/4P3/8/PPPP1PPP/RNBQKBNR b KQkq e3 0 2''"
    by code_simp
  finally show ?thesis .
qed

end
